theory Spec2Isabelle
  imports Main "HOL-Library.Sublist"
begin

text \<open>
  A scraper of a paginated listing of quotes, in five scripts: main.py, main\_asincio.py,
  main\_asincio\_motor.py, main\_oop.py and main\_oop\_asincio.py. Each walks the chain of
  listing pages, collects one reference per author, fetches the authors' profile pages,
  parses the quotes and uploads authors, then quotes, to a document store. The
  definitions follow the functions of the scripts; a function that several scripts hold
  in the same statements is defined once.
\<close>

section \<open>Errors and loops\<close>

text \<open>
  The scripts raise Python exceptions and never catch them: an exception ends the run.
  Every function that can raise returns \<open>error + 'a\<close>, \<open>Inl\<close> being the exception.
  \<^item> \<open>TransportError\<close>: the HTTP request of \<open>get_soup\<close> fails;
  \<^item> \<open>AttributeError\<close>: \<open>.text\<close>, \<open>.find\<close> or \<open>.attrs\<close> on the \<open>None\<close> that
    \<open>find\<close> returned;
  \<^item> \<open>IndexError\<close>: \<open>authors_description[el]\<close> out of range;
  \<^item> \<open>NotUniqueError\<close>: \<open>save()\<close> of a document that breaks a unique field of its class;
  \<^item> \<open>TypeError\<close>: \<open>insert_many\<close> called with an empty list.
\<close>

datatype error = TransportError | AttributeError | IndexError | NotUniqueError | TypeError

text \<open>\<open>for x in xs: body\<close> over a state: the first exception leaves the loop.\<close>

fun foldE :: "('a \<Rightarrow> 's \<Rightarrow> error + 's) \<Rightarrow> 'a list \<Rightarrow> 's \<Rightarrow> error + 's" where
  "foldE f [] s = Inr s"
| "foldE f (x # xs) s = (case f x s of Inl e \<Rightarrow> Inl e | Inr s' \<Rightarrow> foldE f xs s')"

section \<open>Records handed from the scraper to the store\<close>

text \<open>The dictionaries built by \<open>parse_authors\<close> and \<open>parse_quotes\<close>, with their keys.\<close>

record author_data =
  fullname :: string
  born_date :: string
  born_location :: string
  description :: string

record quote_data =
  tags :: "string list"
  author :: string
  quote :: string

section \<open>The document store\<close>

text \<open>
  Two collections, each in insertion order. A stored document carries the identifier the
  driver gave it when it was inserted; identifiers are drawn from a counter. A stored
  quote refers to its author by identifier (\<open>quote_data["author"] = author\<close> for the
  reference field of mongoengine, \<open>author["_id"]\<close> for motor).
\<close>

record author_doc =
  author_id :: nat
  author_fields :: author_data

record quote_doc =
  quote_id :: nat
  quote_tags :: "string list"
  quote_author :: nat
  quote_text :: string

record store =
  author_coll :: "author_doc list"
  quote_coll :: "quote_doc list"
  next_id :: nat

text \<open>
  The classes \<open>Author\<close> and \<open>Quote\<close> are imported from a module \<open>models\<close> that is not
  among the sources. What the persistence functions need of it is whether \<open>save()\<close> can
  refuse a document: whether \<open>fullname\<close> of \<open>Author\<close>, and \<open>quote\<close> of \<open>Quote\<close>, are
  declared unique. Both are parameters of the model; every other field is taken to accept
  the scraped strings.
\<close>

record models =
  author_fullname_unique :: bool
  quote_quote_unique :: bool

text \<open>\<open>Author.objects(fullname=n).first()\<close> and \<open>author_collection.find_one({"fullname": n})\<close>.\<close>

definition author_first :: "store \<Rightarrow> string \<Rightarrow> author_doc option" where
  "author_first st n = find (\<lambda>d. fullname (author_fields d) = n) (author_coll st)"

text \<open>\<open>Quote.objects(quote=t).first()\<close>.\<close>

definition quote_first :: "store \<Rightarrow> string \<Rightarrow> quote_doc option" where
  "quote_first st t = find (\<lambda>d. quote_text d = t) (quote_coll st)"

text \<open>Insertion of a new document at the end of its collection, under a fresh identifier.\<close>

definition insert_author :: "author_data \<Rightarrow> store \<Rightarrow> store" where
  "insert_author a st =
     st\<lparr>author_coll := author_coll st @ [\<lparr>author_id = next_id st, author_fields = a\<rparr>],
        next_id := Suc (next_id st)\<rparr>"

definition insert_quote :: "quote_data \<Rightarrow> nat \<Rightarrow> store \<Rightarrow> store" where
  "insert_quote q aid st =
     st\<lparr>quote_coll := quote_coll st @
          [\<lparr>quote_id = next_id st, quote_tags = tags q, quote_author = aid, quote_text = quote q\<rparr>],
        next_id := Suc (next_id st)\<rparr>"

text \<open>\<open>Author(**author_data).save()\<close> and \<open>Quote(**quote_data).save()\<close> of a new document.\<close>

definition author_save :: "models \<Rightarrow> author_data \<Rightarrow> store \<Rightarrow> error + store" where
  "author_save m a st =
     (if author_fullname_unique m \<and> author_first st (fullname a) \<noteq> None
      then Inl NotUniqueError else Inr (insert_author a st))"

definition quote_save :: "models \<Rightarrow> quote_data \<Rightarrow> nat \<Rightarrow> store \<Rightarrow> error + store" where
  "quote_save m q aid st =
     (if quote_quote_unique m \<and> quote_first st (quote q) \<noteq> None
      then Inl NotUniqueError else Inr (insert_quote q aid st))"

subsection \<open>Persistence in main.py, main\_asincio.py and main\_oop.py\<close>

text \<open>The three files hold the same two functions, statement for statement.\<close>

definition upload_author_data :: "models \<Rightarrow> author_data list \<Rightarrow> store \<Rightarrow> error + store" where
  "upload_author_data m authors_data st = foldE (\<lambda>a s. author_save m a s) authors_data st"

definition upload_quote :: "models \<Rightarrow> quote_data \<Rightarrow> store \<Rightarrow> error + store" where
  "upload_quote m q st =
     (case author_first st (author q) of
        None \<Rightarrow> Inr st
      | Some a \<Rightarrow> quote_save m q (author_id a) st)"

definition upload_quotes_data :: "models \<Rightarrow> quote_data list \<Rightarrow> store \<Rightarrow> error + store" where
  "upload_quotes_data m quotes_data st = foldE (upload_quote m) quotes_data st"

subsection \<open>Persistence in main\_oop\_asincio.py\<close>

definition upload_author_oop_asincio :: "models \<Rightarrow> author_data \<Rightarrow> store \<Rightarrow> error + store" where
  "upload_author_oop_asincio m a st =
     (if author_first st (fullname a) = None then author_save m a st else Inr st)"

definition upload_author_data_oop_asincio ::
    "models \<Rightarrow> author_data list \<Rightarrow> store \<Rightarrow> error + store" where
  "upload_author_data_oop_asincio m authors_data st =
     foldE (upload_author_oop_asincio m) authors_data st"

definition upload_quote_oop_asincio :: "models \<Rightarrow> quote_data \<Rightarrow> store \<Rightarrow> error + store" where
  "upload_quote_oop_asincio m q st =
     (case author_first st (author q) of
        None \<Rightarrow> Inr st
      | Some a \<Rightarrow>
          (if quote_first st (quote q) = None then quote_save m q (author_id a) st else Inr st))"

definition upload_quotes_data_oop_asincio ::
    "models \<Rightarrow> quote_data list \<Rightarrow> store \<Rightarrow> error + store" where
  "upload_quotes_data_oop_asincio m quotes_data st =
     foldE (upload_quote_oop_asincio m) quotes_data st"

subsection \<open>Persistence in main\_asincio\_motor.py\<close>

text \<open>
  The motor variant writes dictionaries straight to the collections: no document class,
  hence no unique field. \<open>insert_many\<close> refuses an empty list and otherwise inserts
  every document in order.
\<close>

definition upload_author_data_motor :: "author_data list \<Rightarrow> store \<Rightarrow> error + store" where
  "upload_author_data_motor authors_data st =
     (if authors_data = [] then Inl TypeError
      else Inr (fold insert_author authors_data st))"

definition upload_quote_motor :: "quote_data \<Rightarrow> store \<Rightarrow> error + store" where
  "upload_quote_motor q st =
     (case author_first st (author q) of
        None \<Rightarrow> Inr st
      | Some a \<Rightarrow> Inr (insert_quote q (author_id a) st))"

definition upload_quotes_data_motor :: "quote_data list \<Rightarrow> store \<Rightarrow> error + store" where
  "upload_quotes_data_motor quotes_data st = foldE upload_quote_motor quotes_data st"

section \<open>Parsed documents\<close>

text \<open>
  \<open>get_soup\<close> turns a URL into a parsed document. The scripts query a document only
  through \<open>find\<close> and \<open>find_all\<close> on a tag name and a class, \<open>.text\<close> and
  \<open>.attrs.get("href", "")\<close>. \<open>find\<close> returns the first match among the descendants
  in document order or \<open>None\<close>, \<open>find_all\<close> every match among the descendants in
  document order.
\<close>

datatype anchor = Anchor (href: "string option")

text \<open>\<open>.attrs.get("href", "")\<close> of an \<open>a\<close> element.\<close>

definition attrs_get_href :: "anchor \<Rightarrow> string" where
  "attrs_get_href a = (case href a of None \<Rightarrow> [] | Some h \<Rightarrow> h)"

text \<open>\<open>li.next\<close>, the navigation element: what \<open>find("a")\<close> returns inside it.\<close>

datatype li_elem = Li (li_a: "anchor option")

text \<open>
  The listing part of a page is a forest of the elements the scripts look for, nested as
  in the document, children in document order: \<open>small.author\<close> and \<open>span.text\<close> with
  their text, \<open>div.tags\<close>, \<open>a.tag\<close> with its text, an \<open>a\<close> without a class,
  \<open>div.quote\<close>, and any other element. Every element may contain any other, a
  \<open>div.quote\<close> another \<open>div.quote\<close> included.
\<close>

datatype kind =
    SmallAuthor string
  | SpanText string
  | DivTags
  | ATag string
  | ANoClass anchor
  | DivQuote
  | Other

datatype node = Node kind "node list"

text \<open>An element followed by its descendants, in document order.\<close>

fun nodes :: "node \<Rightarrow> node list" where
  "nodes (Node k ns) = Node k ns # concat (map nodes ns)"

text \<open>The descendants of an element with the content \<open>ns\<close>: what \<open>find_all\<close> searches.\<close>

definition descendants :: "node list \<Rightarrow> node list" where
  "descendants ns = concat (map nodes ns)"

fun author_text :: "node \<Rightarrow> string list" where
  "author_text (Node (SmallAuthor n) ns) = [n]"
| "author_text (Node k ns) = []"

fun span_text_of :: "node \<Rightarrow> string list" where
  "span_text_of (Node (SpanText t) ns) = [t]"
| "span_text_of (Node k ns) = []"

fun tags_content :: "node \<Rightarrow> node list list" where
  "tags_content (Node DivTags ns) = [ns]"
| "tags_content (Node k ns) = []"

fun tag_text :: "node \<Rightarrow> string list" where
  "tag_text (Node (ATag t) ns) = [t]"
| "tag_text (Node k ns) = []"

fun anchor_of :: "node \<Rightarrow> anchor list" where
  "anchor_of (Node (ANoClass a) ns) = [a]"
| "anchor_of (Node k ns) = []"

fun quote_content :: "node \<Rightarrow> node list list" where
  "quote_content (Node DivQuote ns) = [ns]"
| "quote_content (Node k ns) = []"

text \<open>\<open>find\<close>: the first match, or \<open>None\<close>.\<close>

definition first_match :: "'a list \<Rightarrow> 'a option" where
  "first_match xs = (case xs of [] \<Rightarrow> None | x # _ \<Rightarrow> Some x)"

text \<open>
  \<open>find_all("small", class_="author")\<close> and \<open>find_all("div", class_="quote")\<close> below an
  element or a document with the content \<open>ns\<close>: the texts of the author-name elements,
  and the quote elements, each given by its content.
\<close>

definition find_all_small :: "node list \<Rightarrow> string list" where
  "find_all_small ns = concat (map author_text (descendants ns))"

definition find_all_quote :: "node list \<Rightarrow> node list list" where
  "find_all_quote ns = concat (map quote_content (descendants ns))"

text \<open>
  A \<open>div.quote\<close> element, given by its content, and the queries of the scripts on it:
  the texts of its \<open>small.author\<close> descendants, the text of
  \<open>find("span", class_="text")\<close>, the texts of
  \<open>find("div", class_="tags").find_all("a", class_="tag")\<close>, and
  \<open>find("a", class_="")\<close>.
\<close>

type_synonym quote_elem = "node list"

definition small_author :: "quote_elem \<Rightarrow> string list" where
  "small_author el = find_all_small el"

definition span_text :: "quote_elem \<Rightarrow> string option" where
  "span_text el = first_match (concat (map span_text_of (descendants el)))"

definition div_tags :: "quote_elem \<Rightarrow> string list option" where
  "div_tags el =
     (case first_match (concat (map tags_content (descendants el))) of
        None \<Rightarrow> None
      | Some ns \<Rightarrow> Some (concat (map tag_text (descendants ns))))"

definition a_noclass :: "quote_elem \<Rightarrow> anchor option" where
  "a_noclass el = first_match (concat (map anchor_of (descendants el)))"

text \<open>
  A parsed document: its listing part, and what \<open>find\<close> returns for \<open>li.next\<close> and for
  the four elements of a profile page (their texts).
\<close>

record soup =
  blocks :: "node list"
  li_next :: "li_elem option"
  h3_author_title :: "string option"
  span_author_born_date :: "string option"
  span_author_born_location :: "string option"
  div_author_description :: "string option"

text \<open>\<open>soup.find_all("small", class_="author")\<close>, as the list of the elements' texts.\<close>

definition find_all_small_author :: "soup \<Rightarrow> string list" where
  "find_all_small_author s = find_all_small (blocks s)"

text \<open>\<open>soup.find_all("div", class_="quote")\<close>.\<close>

definition find_all_div_quote :: "soup \<Rightarrow> quote_elem list" where
  "find_all_div_quote s = find_all_quote (blocks s)"

text \<open>
  The site: what a request for a URL returns, \<open>None\<close> when the request fails. The
  pages do not change during a run.
\<close>

type_synonym web = "string \<Rightarrow> soup option"

definition get_soup :: "web \<Rightarrow> string \<Rightarrow> error + soup" where
  "get_soup web url = (case web url of None \<Rightarrow> Inl TransportError | Some s \<Rightarrow> Inr s)"

text \<open>
  \<open>str.strip()\<close>: leading and trailing whitespace removed. Characters are the code
  points below 256; the whitespace among them is listed.
\<close>

definition isspace :: "char \<Rightarrow> bool" where
  "isspace c = (of_char c \<in> {9, 10, 11, 12, 13, 28, 29, 30, 31, 32, 133, 160 :: nat})"

definition strip :: "string \<Rightarrow> string" where
  "strip s = rev (dropWhile isspace (rev (dropWhile isspace s)))"

section \<open>Pagination\<close>

text \<open>
  \<open>get_pages\<close>, the same loop in the five files. The loop runs while \<open>link_to_parse\<close> is
  truthy: it ends on the empty string, and on the \<open>None\<close> assigned when the page has no
  \<open>li.next\<close>. It may run forever: not returning is the value \<open>None\<close>.
\<close>

partial_function (option) get_pages_loop ::
    "web \<Rightarrow> string \<Rightarrow> string list \<Rightarrow> string \<Rightarrow> (error + string list) option" where
  "get_pages_loop web base_link links link_to_parse =
     (if link_to_parse = [] then Some (Inr links)
      else (case get_soup web link_to_parse of
              Inl e \<Rightarrow> Some (Inl e)
            | Inr s \<Rightarrow>
                (case li_next s of
                   None \<Rightarrow> Some (Inr links)
                 | Some li \<Rightarrow>
                     (case li_a li of
                        None \<Rightarrow> Some (Inl AttributeError)
                      | Some a \<Rightarrow>
                          get_pages_loop web base_link
                            (links @ [base_link @ attrs_get_href a])
                            (base_link @ attrs_get_href a)))))"

definition get_pages :: "web \<Rightarrow> string \<Rightarrow> (error + string list) option" where
  "get_pages web base_link = get_pages_loop web base_link [base_link] base_link"

section \<open>Author references\<close>

record author_link =
  author_name :: string
  author_info_url :: string

text \<open>\<open>any(author["author_name"] == author_name for author in author_links)\<close>.\<close>

definition author_found :: "author_link list \<Rightarrow> string \<Rightarrow> bool" where
  "author_found author_links n = list_ex (\<lambda>a. author_name a = n) author_links"

text \<open>
  The body of the inner loop of \<open>get_authors_info\<close> at index \<open>el\<close>. \<open>el\<close> ranges over
  \<open>range(len(authors))\<close>, so \<open>authors[el]\<close> is in range; \<open>authors_description[el]\<close> is
  read only for a name not collected yet, and raises when \<open>el\<close> is out of range.
\<close>

definition author_step ::
    "string \<Rightarrow> string list \<Rightarrow> quote_elem list \<Rightarrow> nat \<Rightarrow> author_link list \<Rightarrow>
     error + author_link list" where
  "author_step base_url authors authors_description el author_links =
     (if author_found author_links (authors ! el) then Inr author_links
      else if el < length authors_description then
        (case a_noclass (authors_description ! el) of
           None \<Rightarrow> Inl AttributeError
         | Some a \<Rightarrow>
             Inr (author_links @
               [\<lparr>author_name = authors ! el,
                 author_info_url = base_url @ attrs_get_href a\<rparr>]))
      else Inl IndexError)"

definition authors_of_soup :: "string \<Rightarrow> soup \<Rightarrow> author_link list \<Rightarrow> error + author_link list" where
  "authors_of_soup base_url s author_links =
     foldE (author_step base_url (find_all_small_author s) (find_all_div_quote s))
       [0 ..< length (find_all_small_author s)] author_links"

definition authors_of_page ::
    "web \<Rightarrow> string \<Rightarrow> string \<Rightarrow> author_link list \<Rightarrow> error + author_link list" where
  "authors_of_page web base_url url author_links =
     (case get_soup web url of
        Inl e \<Rightarrow> Inl e
      | Inr s \<Rightarrow> authors_of_soup base_url s author_links)"

definition get_authors_info :: "web \<Rightarrow> string \<Rightarrow> string list \<Rightarrow> error + author_link list" where
  "get_authors_info web base_url urls = foldE (authors_of_page web base_url) urls []"

section \<open>Author profiles\<close>

text \<open>\<open>soup.find(...).text.strip()\<close>: \<open>.text\<close> of \<open>None\<close> raises.\<close>

definition find_text_strip :: "string option \<Rightarrow> error + string" where
  "find_text_strip r = (case r of None \<Rightarrow> Inl AttributeError | Some t \<Rightarrow> Inr (strip t))"

text \<open>The four reads of one profile document, in the order of the source.\<close>

definition parse_author :: "soup \<Rightarrow> error + author_data" where
  "parse_author s =
     (case find_text_strip (h3_author_title s) of Inl e \<Rightarrow> Inl e | Inr fullname' \<Rightarrow>
      case find_text_strip (span_author_born_date s) of Inl e \<Rightarrow> Inl e | Inr born_date' \<Rightarrow>
      case find_text_strip (span_author_born_location s) of Inl e \<Rightarrow> Inl e | Inr born_location' \<Rightarrow>
      case find_text_strip (div_author_description s) of Inl e \<Rightarrow> Inl e | Inr description' \<Rightarrow>
        Inr \<lparr>fullname = fullname', born_date = born_date',
             born_location = born_location', description = description'\<rparr>)"

definition append_author :: "soup \<Rightarrow> author_data list \<Rightarrow> error + author_data list" where
  "append_author s author_list =
     (case parse_author s of Inl e \<Rightarrow> Inl e | Inr a \<Rightarrow> Inr (author_list @ [a]))"

text \<open>\<open>parse_authors\<close> of main.py (and \<open>AuthorScraper.parse_data\<close>): fetch, then parse, one
  reference at a time.\<close>

definition parse_authors :: "web \<Rightarrow> author_link list \<Rightarrow> error + author_data list" where
  "parse_authors web author_links =
     foldE (\<lambda>a author_list.
              case get_soup web (author_info_url a) of
                Inl e \<Rightarrow> Inl e
              | Inr s \<Rightarrow> append_author s author_list)
       author_links []"

text \<open>\<open>asyncio.gather\<close> over \<open>get_soup\<close>: every document, in the order of the URLs, or the
  failure of a request.\<close>

definition gather_soups :: "web \<Rightarrow> string list \<Rightarrow> error + soup list" where
  "gather_soups web urls =
     foldE (\<lambda>u soups. case get_soup web u of Inl e \<Rightarrow> Inl e | Inr s \<Rightarrow> Inr (soups @ [s]))
       urls []"

text \<open>\<open>parse_authors\<close> of main\_asincio\_motor.py: all the fetches first, then the parsing.\<close>

definition parse_authors_motor :: "web \<Rightarrow> author_link list \<Rightarrow> error + author_data list" where
  "parse_authors_motor web author_links =
     (case gather_soups web (map author_info_url author_links) of
        Inl e \<Rightarrow> Inl e
      | Inr soups \<Rightarrow> foldE append_author soups [])"

section \<open>Quotes\<close>

text \<open>\<open>find(...).text\<close> without \<open>strip\<close>.\<close>

definition find_text :: "string option \<Rightarrow> error + string" where
  "find_text r = (case r of None \<Rightarrow> Inl AttributeError | Some t \<Rightarrow> Inr t)"

text \<open>\<open>el.find("small", class_="author")\<close>: the first of the element's author names.\<close>

definition find_small_author :: "quote_elem \<Rightarrow> string option" where
  "find_small_author el = first_match (small_author el)"

text \<open>The body of the inner loop of \<open>parse_quotes\<close>: author, quote text, then the tags.\<close>

definition parse_quote :: "quote_elem \<Rightarrow> error + quote_data" where
  "parse_quote el =
     (case find_text (find_small_author el) of Inl e \<Rightarrow> Inl e | Inr author' \<Rightarrow>
      case find_text (span_text el) of Inl e \<Rightarrow> Inl e | Inr quote' \<Rightarrow>
      case div_tags el of None \<Rightarrow> Inl AttributeError | Some ts \<Rightarrow>
        Inr \<lparr>tags = map strip ts, author = author', quote = quote'\<rparr>)"

definition append_quote :: "quote_elem \<Rightarrow> quote_data list \<Rightarrow> error + quote_data list" where
  "append_quote el quotes_list =
     (case parse_quote el of Inl e \<Rightarrow> Inl e | Inr q \<Rightarrow> Inr (quotes_list @ [q]))"

definition quotes_of_soup :: "soup \<Rightarrow> quote_data list \<Rightarrow> error + quote_data list" where
  "quotes_of_soup s quotes_list = foldE append_quote (find_all_div_quote s) quotes_list"

text \<open>\<open>parse_quotes\<close> of main.py (and \<open>QuoteScraper.parse_data\<close>).\<close>

definition parse_quotes :: "web \<Rightarrow> string list \<Rightarrow> error + quote_data list" where
  "parse_quotes web links =
     foldE (\<lambda>url quotes_list.
              case get_soup web url of
                Inl e \<Rightarrow> Inl e
              | Inr s \<Rightarrow> quotes_of_soup s quotes_list)
       links []"

text \<open>\<open>parse_quotes\<close> of main\_asincio\_motor.py.\<close>

definition parse_quotes_motor :: "web \<Rightarrow> string list \<Rightarrow> error + quote_data list" where
  "parse_quotes_motor web links =
     (case gather_soups web links of
        Inl e \<Rightarrow> Inl e
      | Inr soups \<Rightarrow> foldE quotes_of_soup soups [])"


section \<open>The runs\<close>

text \<open>
  The scraping half of a run: pages, author references, profiles, quotes. The lists are
  written to \<open>authors.json\<close> and \<open>quotes.json\<close> and read back before the upload; the
  files hold what was written.
\<close>

definition scrape :: "web \<Rightarrow> string \<Rightarrow> (error + author_data list \<times> quote_data list) option" where
  "scrape web base_url =
     (case get_pages web base_url of
        None \<Rightarrow> None
      | Some (Inl e) \<Rightarrow> Some (Inl e)
      | Some (Inr pages) \<Rightarrow>
          Some (case get_authors_info web base_url pages of Inl e \<Rightarrow> Inl e | Inr author_links \<Rightarrow>
                case parse_authors web author_links of Inl e \<Rightarrow> Inl e | Inr authors_info \<Rightarrow>
                case parse_quotes web pages of Inl e \<Rightarrow> Inl e | Inr quotes_info \<Rightarrow>
                  Inr (authors_info, quotes_info)))"

definition scrape_motor ::
    "web \<Rightarrow> string \<Rightarrow> (error + author_data list \<times> quote_data list) option" where
  "scrape_motor web base_url =
     (case get_pages web base_url of
        None \<Rightarrow> None
      | Some (Inl e) \<Rightarrow> Some (Inl e)
      | Some (Inr pages) \<Rightarrow>
          Some (case get_authors_info web base_url pages of Inl e \<Rightarrow> Inl e | Inr author_links \<Rightarrow>
                case parse_authors_motor web author_links of Inl e \<Rightarrow> Inl e | Inr authors_info \<Rightarrow>
                case parse_quotes_motor web pages of Inl e \<Rightarrow> Inl e | Inr quotes_info \<Rightarrow>
                  Inr (authors_info, quotes_info)))"

text \<open>The upload half: every author, then every quote.\<close>

definition upload ::
    "(author_data list \<Rightarrow> store \<Rightarrow> error + store) \<Rightarrow> (quote_data list \<Rightarrow> store \<Rightarrow> error + store) \<Rightarrow>
     (error + author_data list \<times> quote_data list) option \<Rightarrow> store \<Rightarrow> (error + store) option" where
  "upload upload_authors upload_quotes scraped st =
     (case scraped of
        None \<Rightarrow> None
      | Some (Inl e) \<Rightarrow> Some (Inl e)
      | Some (Inr (authors_data, quotes_data)) \<Rightarrow>
          Some (case upload_authors authors_data st of
                  Inl e \<Rightarrow> Inl e
                | Inr st' \<Rightarrow> upload_quotes quotes_data st'))"

text \<open>The main blocks of main.py, main\_asincio.py and main\_oop.py.\<close>

definition main_py :: "web \<Rightarrow> string \<Rightarrow> models \<Rightarrow> store \<Rightarrow> (error + store) option" where
  "main_py web base_url m st =
     upload (upload_author_data m) (upload_quotes_data m) (scrape web base_url) st"

text \<open>\<open>ScraperManager.scrape_and_store\<close> of main\_oop\_asincio.py.\<close>

definition main_oop_asincio :: "web \<Rightarrow> string \<Rightarrow> models \<Rightarrow> store \<Rightarrow> (error + store) option" where
  "main_oop_asincio web base_url m st =
     upload (upload_author_data_oop_asincio m) (upload_quotes_data_oop_asincio m)
       (scrape web base_url) st"

text \<open>\<open>main\<close> of main\_asincio\_motor.py.\<close>

definition main_asincio_motor :: "web \<Rightarrow> string \<Rightarrow> store \<Rightarrow> (error + store) option" where
  "main_asincio_motor web base_url st =
     upload upload_author_data_motor upload_quotes_data_motor (scrape_motor web base_url) st"

section \<open>Notions used in the statements\<close>

text \<open>
  A finite chain of next links from the page at \<open>u\<close>: the page is fetched, its \<open>li.next\<close>
  holds an \<open>a\<close> whose \<open>href\<close> (or the empty default) is the head of the list, and the
  chain goes on from the page the loop requests next, \<open>base_link + href\<close>; the chain ends
  at a page without \<open>li.next\<close>.
\<close>

fun next_chain :: "web \<Rightarrow> string \<Rightarrow> string \<Rightarrow> string list \<Rightarrow> bool" where
  "next_chain web base_link u [] =
     (case web u of None \<Rightarrow> False | Some s \<Rightarrow> li_next s = None)"
| "next_chain web base_link u (h # hs) =
     (case web u of
        None \<Rightarrow> False
      | Some s \<Rightarrow>
          (case li_next s of
             None \<Rightarrow> False
           | Some li \<Rightarrow>
               (case li_a li of
                  None \<Rightarrow> False
                | Some a \<Rightarrow> attrs_get_href a = h \<and> next_chain web base_link (base_link @ h) hs)))"

text \<open>
  The author references of a page, one per author-name element: the name, and the profile
  URL read from the quote element at the same index.
\<close>

definition elem_url :: "string \<Rightarrow> quote_elem \<Rightarrow> string" where
  "elem_url base_url q =
     base_url @ (case a_noclass q of None \<Rightarrow> [] | Some a \<Rightarrow> attrs_get_href a)"

definition page_refs :: "string \<Rightarrow> soup \<Rightarrow> author_link list" where
  "page_refs base_url s =
     map (\<lambda>(n, q). \<lparr>author_name = n, author_info_url = elem_url base_url q\<rparr>)
       (zip (find_all_small_author s) (find_all_div_quote s))"

text \<open>
  Every author-name element of the page has a quote element at its index, and that quote
  element has a profile link.
\<close>

definition refs_complete :: "soup \<Rightarrow> bool" where
  "refs_complete s =
     (length (find_all_small_author s) \<le> length (find_all_div_quote s)
      \<and> list_all (\<lambda>q. a_noclass q \<noteq> None)
           (take (length (find_all_small_author s)) (find_all_div_quote s)))"

text \<open>
  Deduplication as the specification words it: keyed by name, the first occurrence wins,
  every later occurrence of the name is discarded, the order is kept.
\<close>

fun dedupe :: "author_link list \<Rightarrow> author_link list" where
  "dedupe [] = []"
| "dedupe (r # rs) = r # dedupe (filter (\<lambda>x. author_name x \<noteq> author_name r) rs)"

text \<open>Each quote element of the page contains exactly one author-name element.\<close>

definition one_author_each :: "soup \<Rightarrow> bool" where
  "one_author_each s = list_all (\<lambda>q. length (small_author q) = 1) (find_all_div_quote s)"

text \<open>
  The author-name elements of an element that lie outside every quote element: below a
  \<open>div.quote\<close> there is none, elsewhere the element itself counts when it is a
  \<open>small.author\<close>, and its content is searched.
\<close>

fun stray_authors :: "node \<Rightarrow> string list" where
  "stray_authors (Node DivQuote ns) = []"
| "stray_authors (Node (SmallAuthor n) ns) = n # concat (map stray_authors ns)"
| "stray_authors (Node k ns) = concat (map stray_authors ns)"

text \<open>No author-name element of the page lies outside the quote elements.\<close>

definition authors_inside_quotes :: "soup \<Rightarrow> bool" where
  "authors_inside_quotes s = (concat (map stray_authors (blocks s)) = [])"

text \<open>No quote element of the page lies inside another quote element.\<close>

definition quotes_not_nested :: "soup \<Rightarrow> bool" where
  "quotes_not_nested s = list_all (\<lambda>q. find_all_quote q = []) (find_all_div_quote s)"

text \<open>
  The indices at which the loop over the author-name elements \<open>authors\<close> of a page adds
  a reference: the name there is not among the references collected before the page,
  and does not occur at a lower index of the page.
\<close>

definition new_author_indices :: "author_link list \<Rightarrow> string list \<Rightarrow> nat list" where
  "new_author_indices author_links authors =
     filter (\<lambda>i. \<not> author_found author_links (authors ! i) \<and> authors ! i \<notin> set (take i authors))
       [0 ..< length authors]"

text \<open>The reference read at index \<open>i\<close>: the name at \<open>i\<close>, the link of the quote element at \<open>i\<close>.\<close>

definition ref_at :: "string \<Rightarrow> string list \<Rightarrow> quote_elem list \<Rightarrow> nat \<Rightarrow> author_link" where
  "ref_at base_url authors authors_description i =
     \<lparr>author_name = authors ! i,
      author_info_url = elem_url base_url (authors_description ! i)\<rparr>"

section \<open>Auxiliary definitions of the proofs\<close>

text \<open>The fetch and the parse of one author reference.\<close>

definition fetch_author :: "web \<Rightarrow> author_link \<Rightarrow> error + author_data" where
  "fetch_author web a =
     (case get_soup web (author_info_url a) of Inl e \<Rightarrow> Inl e | Inr s \<Rightarrow> parse_author s)"

text \<open>The documents of a list of URLs.\<close>

definition web_soups :: "web \<Rightarrow> string list \<Rightarrow> soup list \<Rightarrow> bool" where
  "web_soups web urls soups = list_all2 (\<lambda>u s. web u = Some s) urls soups"

text \<open>The quotes of the page at one URL.\<close>

definition page_quotes :: "web \<Rightarrow> string \<Rightarrow> error + quote_data list" where
  "page_quotes web url =
     (case get_soup web url of Inl e \<Rightarrow> Inl e | Inr s \<Rightarrow> quotes_of_soup s [])"

text \<open>One reference offered to the list collected so far.\<close>

definition dedupe_step :: "author_link \<Rightarrow> author_link list \<Rightarrow> author_link list" where
  "dedupe_step r author_links =
     (if author_found author_links (author_name r) then author_links else author_links @ [r])"

section \<open>Example data\<close>

definition einstein :: author_data where
  "einstein = \<lparr>fullname = ''Albert Einstein'', born_date = ''March 14, 1879'',
                born_location = ''in Ulm, Germany'', description = ''Physicist''\<rparr>"

definition quote_einstein :: quote_data where
  "quote_einstein = \<lparr>tags = [''change'', ''deep-thoughts'', ''thinking''],
                      author = ''Albert Einstein'', quote = ''The world as we have created it''\<rparr>"

definition quote_rowling :: quote_data where
  "quote_rowling = \<lparr>tags = [''abilities'', ''choices''],
                     author = ''J.K. Rowling'', quote = ''It is our choices''\<rparr>"

definition empty_store :: store where
  "empty_store = \<lparr>author_coll = [], quote_coll = [], next_id = 0\<rparr>"

text \<open>The store after a first run that found Einstein and his quote.\<close>

definition einstein_store :: store where
  "einstein_store =
     \<lparr>author_coll = [\<lparr>author_id = 0, author_fields = einstein\<rparr>],
      quote_coll = [\<lparr>quote_id = 1, quote_tags = [''change'', ''deep-thoughts'', ''thinking''],
                     quote_author = 0, quote_text = ''The world as we have created it''\<rparr>],
      next_id = 2\<rparr>"

definition plain_models :: models where
  "plain_models = \<lparr>author_fullname_unique = False, quote_quote_unique = False\<rparr>"

definition unique_models :: models where
  "unique_models = \<lparr>author_fullname_unique = True, quote_quote_unique = True\<rparr>"

text \<open>\<open>BASE_URL\<close> of the main blocks.\<close>

definition BASE_URL :: string where
  "BASE_URL = ''https://quotes.toscrape.com''"

text \<open>A site of one listing page, with one quote, and the profile page of its author.\<close>

definition tag_links :: "string list \<Rightarrow> node" where
  "tag_links ts = Node DivTags (map (\<lambda>t. Node (ATag t) []) ts)"

definition einstein_elem :: quote_elem where
  "einstein_elem =
     [Node (SpanText ''The world as we have created it'') [],
      Node Other [Node (SmallAuthor ''Albert Einstein'') [],
                  Node (ANoClass (Anchor (Some ''/author/Albert-Einstein''))) []],
      tag_links [''change'', ''deep-thoughts'', ''thinking'']]"

definition listing :: "node list \<Rightarrow> li_elem option \<Rightarrow> soup" where
  "listing bs nxt =
     \<lparr>blocks = bs, li_next = nxt, h3_author_title = None, span_author_born_date = None,
      span_author_born_location = None, div_author_description = None\<rparr>"

definition einstein_page :: soup where
  "einstein_page =
     \<lparr>blocks = [], li_next = None,
      h3_author_title = Some ''Albert Einstein'',
      span_author_born_date = Some ''March 14, 1879'',
      span_author_born_location = Some ''in Ulm, Germany'',
      div_author_description = Some '' Physicist ''\<rparr>"

definition one_page_web :: web where
  "one_page_web url =
     (if url = BASE_URL then Some (listing [Node DivQuote einstein_elem] None)
      else if url = BASE_URL @ ''/author/Albert-Einstein'' then Some einstein_page
      else None)"

text \<open>A site of three listing pages without quotes: page 1, page 2, page 3.\<close>

definition three_page_web :: web where
  "three_page_web url =
     (if url = BASE_URL then Some (listing [] (Some (Li (Some (Anchor (Some ''/page/2/''))))))
      else if url = BASE_URL @ ''/page/2/''
        then Some (listing [] (Some (Li (Some (Anchor (Some ''/page/3/''))))))
      else if url = BASE_URL @ ''/page/3/'' then Some (listing [] None)
      else None)"

text \<open>A second quote element, and Einstein's element with another profile link.\<close>

definition rowling_elem :: quote_elem where
  "rowling_elem =
     [Node (SpanText ''It is our choices'') [],
      Node Other [Node (SmallAuthor ''J.K. Rowling'') [],
                  Node (ANoClass (Anchor (Some ''/author/J-K-Rowling''))) []],
      tag_links [''abilities'', ''choices'']]"

definition einstein_elem2 :: quote_elem where
  "einstein_elem2 =
     [Node (SpanText ''Try not to become a man of success'') [],
      Node Other [Node (SmallAuthor ''Albert Einstein'') [],
                  Node (ANoClass (Anchor (Some ''/author/Einstein''))) []],
      tag_links [''success'']]"

text \<open>Two listing pages: Einstein and Rowling on the first, Einstein again on the second.\<close>

definition page_one :: soup where
  "page_one = listing [Node Other [Node DivQuote einstein_elem, Node DivQuote rowling_elem]]
                (Some (Li (Some (Anchor (Some ''/page/2/'')))))"

definition page_two :: soup where
  "page_two = listing [Node DivQuote einstein_elem2] None"

definition two_page_web :: web where
  "two_page_web url =
     (if url = BASE_URL then Some page_one
      else if url = BASE_URL @ ''/page/2/'' then Some page_two
      else None)"

text \<open>A page with an author name in a sidebar, before its only quote.\<close>

definition sidebar_page :: soup where
  "sidebar_page =
     listing [Node (SmallAuthor ''Albert Einstein'') [], Node DivQuote rowling_elem] None"

text \<open>A page whose only quote element shows its author's name twice.\<close>

definition twice_page :: soup where
  "twice_page =
     listing [Node DivQuote (Node (SmallAuthor ''Albert Einstein'') [] # einstein_elem)] None"

text \<open>
  A page whose first quote element lies inside another \<open>div.quote\<close>, followed by a
  second quote element: three quote elements, each with one author-name element.
\<close>

definition nested_page :: soup where
  "nested_page =
     listing [Node DivQuote [Node DivQuote einstein_elem], Node DivQuote rowling_elem] None"

text \<open>The store after a second run of the variants without the checks.\<close>

definition doubled_store :: store where
  "doubled_store =
     \<lparr>author_coll = [\<lparr>author_id = 0, author_fields = einstein\<rparr>,
                     \<lparr>author_id = 2, author_fields = einstein\<rparr>],
      quote_coll = [\<lparr>quote_id = 1, quote_tags = [''change'', ''deep-thoughts'', ''thinking''],
                     quote_author = 0, quote_text = ''The world as we have created it''\<rparr>,
                    \<lparr>quote_id = 3, quote_tags = [''change'', ''deep-thoughts'', ''thinking''],
                     quote_author = 0, quote_text = ''The world as we have created it''\<rparr>],
      next_id = 4\<rparr>"

section \<open>Loops that stop at the first exception\<close>

lemma foldE_append:
  "foldE f (xs @ ys) s = (case foldE f xs s of Inl e \<Rightarrow> Inl e | Inr s' \<Rightarrow> foldE f ys s')"
  by (induction xs arbitrary: s) (auto split: sum.splits)

lemma foldE_preserves:
  assumes "\<And>x s s'. f x s = Inr s' \<Longrightarrow> g s' = g s"
  shows "foldE f xs s = Inr s' \<Longrightarrow> g s' = g s"
proof (induction xs arbitrary: s)
  case Nil
  then show ?case by simp
next
  case (Cons x xs)
  then obtain s1 where s1: "f x s = Inr s1" and rest: "foldE f xs s1 = Inr s'"
    by (auto split: sum.splits)
  from Cons.IH [OF rest] assms [OF s1] show ?case by simp
qed

text \<open>An element on which the body does nothing can be left out of the loop.\<close>

lemma foldE_drop_noop:
  assumes pres: "\<And>x s s'. f x s = Inr s' \<Longrightarrow> g s' = g s"
    and noop: "\<And>s'. g s' = g s \<Longrightarrow> f x s' = Inr s'"
  shows "foldE f (xs @ x # ys) s = foldE f (xs @ ys) s"
proof (cases "foldE f xs s")
  case (Inl e)
  then show ?thesis by (simp add: foldE_append)
next
  case (Inr s1)
  have "g s1 = g s"
    using foldE_preserves [of f g xs s s1] pres Inr by blast
  then have "f x s1 = Inr s1" by (rule noop)
  with Inr show ?thesis by (simp add: foldE_append)
qed

lemmas query_defs = descendants_def first_match_def find_all_small_def find_all_quote_def
  small_author_def span_text_def div_tags_def a_noclass_def find_all_small_author_def
  find_all_div_quote_def

lemmas example_defs = einstein_def quote_einstein_def quote_rowling_def empty_store_def
  einstein_store_def plain_models_def unique_models_def BASE_URL_def tag_links_def
  einstein_elem_def listing_def einstein_page_def one_page_web_def

section \<open>Uploading quotes\<close>

text \<open>No variant of \<open>upload_quotes_data\<close> touches the author collection.\<close>

lemma upload_quote_author_coll:
  "upload_quote m q st = Inr st' \<Longrightarrow> author_coll st' = author_coll st"
  by (auto simp: upload_quote_def quote_save_def insert_quote_def
      split: option.splits if_splits)

lemma upload_quote_oop_asincio_author_coll:
  "upload_quote_oop_asincio m q st = Inr st' \<Longrightarrow> author_coll st' = author_coll st"
  by (auto simp: upload_quote_oop_asincio_def quote_save_def insert_quote_def
      split: option.splits if_splits)

lemma upload_quote_motor_author_coll:
  "upload_quote_motor q st = Inr st' \<Longrightarrow> author_coll st' = author_coll st"
  by (auto simp: upload_quote_motor_def insert_quote_def split: option.splits if_splits)

text \<open>
  Claim C7. A quote whose author name matches no stored author when the quotes are
  uploaded is left out: its own step returns the store as it was, without an exception,
  and the upload of a list that holds it, at any position, is the upload of the list
  without it, so every other quote is processed as before. This holds for the
  mongoengine variants, for the motor variant and for main\_oop\_asincio.py.
\<close>

theorem quote_without_author_excluded:
  assumes "author_first st (author q) = None"
  shows "upload_quote m q st = Inr st
       \<and> upload_quotes_data m (xs @ q # ys) st = upload_quotes_data m (xs @ ys) st
       \<and> upload_quote_motor q st = Inr st
       \<and> upload_quotes_data_motor (xs @ q # ys) st = upload_quotes_data_motor (xs @ ys) st
       \<and> upload_quote_oop_asincio m q st = Inr st
       \<and> upload_quotes_data_oop_asincio m (xs @ q # ys) st =
           upload_quotes_data_oop_asincio m (xs @ ys) st"
proof -
  have a: "upload_quote m q s = Inr s" if "author_coll s = author_coll st" for s
    using assms that by (simp add: upload_quote_def author_first_def)
  have b: "upload_quote_motor q s = Inr s" if "author_coll s = author_coll st" for s
    using assms that by (simp add: upload_quote_motor_def author_first_def)
  have c: "upload_quote_oop_asincio m q s = Inr s" if "author_coll s = author_coll st" for s
    using assms that by (simp add: upload_quote_oop_asincio_def author_first_def)
  have "upload_quotes_data m (xs @ q # ys) st = upload_quotes_data m (xs @ ys) st"
    unfolding upload_quotes_data_def
    by (rule foldE_drop_noop [where g = author_coll]) (auto dest: upload_quote_author_coll a)
  moreover have
    "upload_quotes_data_motor (xs @ q # ys) st = upload_quotes_data_motor (xs @ ys) st"
    unfolding upload_quotes_data_motor_def
    by (rule foldE_drop_noop [where g = author_coll])
       (auto dest: upload_quote_motor_author_coll b)
  moreover have "upload_quotes_data_oop_asincio m (xs @ q # ys) st =
           upload_quotes_data_oop_asincio m (xs @ ys) st"
    unfolding upload_quotes_data_oop_asincio_def
    by (rule foldE_drop_noop [where g = author_coll])
       (auto dest: upload_quote_oop_asincio_author_coll c)
  ultimately show ?thesis using a b c by simp
qed

text \<open>
  The store holds Einstein only; a quote by J.K. Rowling stands between two quotes by
  Einstein. The upload is that of the two quotes by Einstein, and both are inserted.
\<close>

theorem quote_without_author_excluded_witness:
  "author_first einstein_store (author quote_rowling) = None
   \<and> upload_quotes_data plain_models ([quote_einstein] @ quote_rowling # [quote_einstein])
         einstein_store
       = upload_quotes_data plain_models ([quote_einstein] @ [quote_einstein]) einstein_store
   \<and> upload_quotes_data plain_models ([quote_einstein] @ [quote_einstein]) einstein_store =
       Inr (einstein_store\<lparr>quote_coll := quote_coll einstein_store @
          [\<lparr>quote_id = 2, quote_tags = [''change'', ''deep-thoughts'', ''thinking''],
            quote_author = 0, quote_text = ''The world as we have created it''\<rparr>,
           \<lparr>quote_id = 3, quote_tags = [''change'', ''deep-thoughts'', ''thinking''],
            quote_author = 0, quote_text = ''The world as we have created it''\<rparr>],
          next_id := 4\<rparr>)"
proof -
  have h: "author_first einstein_store (author quote_rowling) = None"
    by (simp add: author_first_def example_defs)
  have e: "upload_quotes_data plain_models ([quote_einstein] @ [quote_einstein]) einstein_store =
       Inr (einstein_store\<lparr>quote_coll := quote_coll einstein_store @
          [\<lparr>quote_id = 2, quote_tags = [''change'', ''deep-thoughts'', ''thinking''],
            quote_author = 0, quote_text = ''The world as we have created it''\<rparr>,
           \<lparr>quote_id = 3, quote_tags = [''change'', ''deep-thoughts'', ''thinking''],
            quote_author = 0, quote_text = ''The world as we have created it''\<rparr>],
          next_id := 4\<rparr>)"
    by (simp add: upload_quotes_data_def upload_quote_def quote_save_def insert_quote_def
        author_first_def quote_first_def example_defs)
  from quote_without_author_excluded
    [OF h, of plain_models "[quote_einstein]" "[quote_einstein]"] h e
  show ?thesis by simp
qed

section \<open>Loops that collect results\<close>

lemma foldE_collect:
  "foldE (\<lambda>x acc. case g x of Inl e \<Rightarrow> Inl e | Inr y \<Rightarrow> Inr (acc @ [y])) xs acc = Inr r
   \<longleftrightarrow> (\<exists>ys. list_all2 (\<lambda>x y. g x = Inr y) xs ys \<and> r = acc @ ys)"
proof (induction xs arbitrary: acc)
  case Nil
  then show ?case by auto
next
  case (Cons x xs)
  show ?case
  proof (cases "g x")
    case (Inl e)
    then show ?thesis by (auto simp: list_all2_Cons1)
  next
    case (Inr y)
    then show ?thesis by (auto simp: Cons.IH list_all2_Cons1)
  qed
qed

lemma foldE_collect_many:
  assumes "\<And>x acc. f x acc = (case h x of Inl e \<Rightarrow> Inl e | Inr ys \<Rightarrow> Inr (acc @ ys))"
  shows "foldE f xs acc = Inr r
   \<longleftrightarrow> (\<exists>yss. list_all2 (\<lambda>x ys. h x = Inr ys) xs yss \<and> r = acc @ concat yss)"
proof (induction xs arbitrary: acc)
  case Nil
  then show ?case by auto
next
  case (Cons x xs)
  show ?case
  proof (cases "h x")
    case (Inl e)
    then have "foldE f (x # xs) acc = Inl e"
      by (simp add: assms)
    with Inl show ?thesis by (auto simp: list_all2_Cons1)
  next
    case (Inr y)
    then have "foldE f (x # xs) acc = foldE f xs (acc @ y)"
      by (simp add: assms)
    with Inr show ?thesis by (auto simp: Cons.IH list_all2_Cons1)
  qed
qed

section \<open>Author profiles: all or nothing\<close>

lemma parse_author_Inr:
  "parse_author s = Inr r \<longleftrightarrow>
     (\<exists>t d l b. h3_author_title s = Some t \<and> span_author_born_date s = Some d
        \<and> span_author_born_location s = Some l \<and> div_author_description s = Some b
        \<and> r = \<lparr>fullname = strip t, born_date = strip d, born_location = strip l,
                description = strip b\<rparr>)"
  by (auto simp: parse_author_def find_text_strip_def split: option.splits)

lemma parse_authors_collect:
  "parse_authors web author_links = Inr rs \<longleftrightarrow>
     list_all2 (\<lambda>a r. fetch_author web a = Inr r) author_links rs"
proof -
  have "parse_authors web author_links =
      foldE (\<lambda>a acc. case fetch_author web a of Inl e \<Rightarrow> Inl e | Inr y \<Rightarrow> Inr (acc @ [y]))
        author_links []"
    unfolding parse_authors_def fetch_author_def append_author_def
    by (rule arg_cong [where f = "\<lambda>f. foldE f author_links []"])
       (auto simp: fun_eq_iff split: sum.splits)
  then show ?thesis by (simp add: foldE_collect)
qed

lemma gather_soups_Inr:
  "gather_soups web urls = Inr soups \<longleftrightarrow> list_all2 (\<lambda>u s. web u = Some s) urls soups"
proof -
  have "gather_soups web urls =
     foldE (\<lambda>u acc. case get_soup web u of Inl e \<Rightarrow> Inl e | Inr y \<Rightarrow> Inr (acc @ [y])) urls []"
    by (simp add: gather_soups_def)
  moreover have "get_soup web u = Inr s \<longleftrightarrow> web u = Some s" for u s
    by (simp add: get_soup_def split: option.splits)
  ultimately show ?thesis by (simp add: foldE_collect)
qed

lemma fetch_author_Inr:
  "fetch_author web a = Inr r \<longleftrightarrow> (\<exists>s. web (author_info_url a) = Some s \<and> parse_author s = Inr r)"
  by (auto simp: fetch_author_def get_soup_def split: option.splits)

lemma list_all2_compose:
  "(\<exists>ys. list_all2 P xs ys \<and> list_all2 Q ys zs) \<longleftrightarrow> list_all2 (\<lambda>x z. \<exists>y. P x y \<and> Q y z) xs zs"
proof
  assume "\<exists>ys. list_all2 P xs ys \<and> list_all2 Q ys zs"
  then obtain ys where "list_all2 P xs ys" "list_all2 Q ys zs" by blast
  then have "list_all2 (P OO Q) xs zs" by (rule list_all2_trans [rotated 1]) auto
  then show "list_all2 (\<lambda>x z. \<exists>y. P x y \<and> Q y z) xs zs"
    by (simp add: OO_def)
next
  assume "list_all2 (\<lambda>x z. \<exists>y. P x y \<and> Q y z) xs zs"
  then show "\<exists>ys. list_all2 P xs ys \<and> list_all2 Q ys zs"
  proof (induction rule: list_all2_induct)
    case Nil
    then show ?case by simp
  next
    case (Cons x xs z zs)
    then obtain y ys where "P x y" "Q y z" "list_all2 P xs ys" "list_all2 Q ys zs" by blast
    then have "list_all2 P (x # xs) (y # ys) \<and> list_all2 Q (y # ys) (z # zs)" by simp
    then show ?case by blast
  qed
qed

lemma parse_authors_motor_collect:
  "parse_authors_motor web author_links = Inr rs \<longleftrightarrow>
     list_all2 (\<lambda>a r. fetch_author web a = Inr r) author_links rs"
proof -
  have f: "foldE append_author soups [] = Inr rs \<longleftrightarrow> list_all2 (\<lambda>s r. parse_author s = Inr r) soups rs"
    for soups
  proof -
    have "foldE append_author soups [] =
      foldE (\<lambda>s acc. case parse_author s of Inl e \<Rightarrow> Inl e | Inr y \<Rightarrow> Inr (acc @ [y])) soups []"
      by (rule arg_cong [where f = "\<lambda>f. foldE f soups []"])
         (simp add: fun_eq_iff append_author_def)
    then show ?thesis by (simp add: foldE_collect)
  qed
  have "parse_authors_motor web author_links = Inr rs \<longleftrightarrow>
      (\<exists>soups. list_all2 (\<lambda>u s. web u = Some s) (map author_info_url author_links) soups
         \<and> list_all2 (\<lambda>s r. parse_author s = Inr r) soups rs)"
  proof (cases "gather_soups web (map author_info_url author_links)")
    case (Inl e)
    then have "\<not> list_all2 (\<lambda>u s. web u = Some s) (map author_info_url author_links) soups"
      for soups
      using gather_soups_Inr [of web "map author_info_url author_links" soups] by simp
    with Inl show ?thesis by (simp add: parse_authors_motor_def)
  next
    case (Inr soups)
    then have *: "list_all2 (\<lambda>u s. web u = Some s) (map author_info_url author_links) soups' \<longleftrightarrow>
        soups' = soups" for soups'
      using gather_soups_Inr [of web "map author_info_url author_links" soups'] by auto
    from Inr show ?thesis by (simp add: parse_authors_motor_def f *)
  qed
  also have "\<dots> \<longleftrightarrow> list_all2 (\<lambda>a r. fetch_author web a = Inr r) author_links rs"
    by (simp add: list_all2_map1 list_all2_compose fetch_author_Inr)
  finally show ?thesis .
qed



text \<open>
  Claim C8. \<open>parse_authors\<close> returns a list exactly when every reference's document is
  fetched and holds the four elements; the list then has one record per reference, in
  the order of the references, whose fields are the stripped texts of \<open>h3.author-title\<close>,
  \<open>span.author-born-date\<close>, \<open>span.author-born-location\<close> and \<open>div.author-description\<close>.
  Otherwise it raises: when a fetched document of the list lacks one of the four
  elements no list is returned, so no partial record is. The motor variant, which
  fetches every document before it parses, returns the same list or fails as well.
\<close>

theorem parse_authors_all_or_nothing:
  "(parse_authors web author_links = Inr rs \<longleftrightarrow>
      list_all2 (\<lambda>a r. \<exists>s t d l b. web (author_info_url a) = Some s
          \<and> h3_author_title s = Some t \<and> span_author_born_date s = Some d
          \<and> span_author_born_location s = Some l \<and> div_author_description s = Some b
          \<and> r = \<lparr>fullname = strip t, born_date = strip d, born_location = strip l,
                  description = strip b\<rparr>) author_links rs)
   \<and> (parse_authors_motor web author_links = parse_authors web author_links
        \<or> (\<exists>e e'. parse_authors_motor web author_links = Inl e
               \<and> parse_authors web author_links = Inl e'))
   \<and> (parse_authors web author_links = Inr rs \<longrightarrow> length rs = length author_links)
   \<and> ((\<exists>a s. a \<in> set author_links \<and> web (author_info_url a) = Some s
          \<and> (h3_author_title s = None \<or> span_author_born_date s = None
             \<or> span_author_born_location s = None \<or> div_author_description s = None))
        \<longrightarrow> (\<exists>e. parse_authors web author_links = Inl e))"
proof -
  let ?P = "\<lambda>a r. \<exists>s t d l b. web (author_info_url a) = Some s
          \<and> h3_author_title s = Some t \<and> span_author_born_date s = Some d
          \<and> span_author_born_location s = Some l \<and> div_author_description s = Some b
          \<and> r = \<lparr>fullname = strip t, born_date = strip d, born_location = strip l,
                  description = strip b\<rparr>"
  have P: "(\<lambda>a r. fetch_author web a = Inr r) = ?P"
    by (auto simp: fun_eq_iff fetch_author_Inr parse_author_Inr)
  have 1: "parse_authors web author_links = Inr rs \<longleftrightarrow> list_all2 ?P author_links rs"
    by (simp add: parse_authors_collect P)
  have 2: "parse_authors_motor web author_links = parse_authors web author_links
        \<or> (\<exists>e e'. parse_authors_motor web author_links = Inl e
               \<and> parse_authors web author_links = Inl e')"
  proof (cases "parse_authors web author_links")
    case (Inl e')
    then have "parse_authors_motor web author_links \<noteq> Inr r" for r
      using parse_authors_collect [of web author_links r]
        parse_authors_motor_collect [of web author_links r] by simp
    then obtain e where "parse_authors_motor web author_links = Inl e"
      by (cases "parse_authors_motor web author_links") auto
    with Inl show ?thesis by simp
  next
    case (Inr r)
    then show ?thesis
      using parse_authors_collect [of web author_links r]
        parse_authors_motor_collect [of web author_links r] by simp
  qed
  have 3: "length rs = length author_links" if "parse_authors web author_links = Inr rs"
    using that by (auto simp: parse_authors_collect dest: list_all2_lengthD)
  have 4: "\<exists>e. parse_authors web author_links = Inl e"
    if "\<exists>a s. a \<in> set author_links \<and> web (author_info_url a) = Some s
          \<and> (h3_author_title s = None \<or> span_author_born_date s = None
             \<or> span_author_born_location s = None \<or> div_author_description s = None)"
  proof (cases "parse_authors web author_links")
    case (Inl e)
    then show ?thesis by simp
  next
    case (Inr r)
    then have all: "list_all2 (\<lambda>a r. fetch_author web a = Inr r) author_links r"
      by (simp add: parse_authors_collect)
    from that obtain a s where a: "a \<in> set author_links" "web (author_info_url a) = Some s"
      and s: "h3_author_title s = None \<or> span_author_born_date s = None
             \<or> span_author_born_location s = None \<or> div_author_description s = None"
      by blast
    from a(1) obtain i where i: "i < length author_links" "author_links ! i = a"
      by (auto simp: in_set_conv_nth)
    with all have "fetch_author web a = Inr (r ! i)"
      by (auto dest: list_all2_nthD)
    with a(2) have "parse_author s = Inr (r ! i)"
      by (simp add: fetch_author_Inr)
    with s show ?thesis by (auto simp: parse_author_Inr)
  qed
  from 1 2 3 4 show ?thesis by blast
qed

text \<open>
  Einstein's profile page gives his record, the description stripped; the listing page,
  which has no \<open>h3.author-title\<close>, makes the whole call fail.
\<close>

theorem parse_authors_all_or_nothing_witness:
  "parse_authors one_page_web
      [\<lparr>author_name = ''Albert Einstein'',
        author_info_url = BASE_URL @ ''/author/Albert-Einstein''\<rparr>] = Inr [einstein]
   \<and> length [einstein] = length [\<lparr>author_name = ''Albert Einstein'',
        author_info_url = BASE_URL @ ''/author/Albert-Einstein''\<rparr>]
   \<and> (\<exists>e. parse_authors one_page_web
      [\<lparr>author_name = ''Albert Einstein'', author_info_url = BASE_URL\<rparr>] = Inl e)"
proof -
  let ?a = "\<lparr>author_name = ''Albert Einstein'',
        author_info_url = BASE_URL @ ''/author/Albert-Einstein''\<rparr>"
  let ?b = "\<lparr>author_name = ''Albert Einstein'', author_info_url = BASE_URL\<rparr>"
  have "list_all2 (\<lambda>a r. \<exists>s t d l b. one_page_web (author_info_url a) = Some s
          \<and> h3_author_title s = Some t \<and> span_author_born_date s = Some d
          \<and> span_author_born_location s = Some l \<and> div_author_description s = Some b
          \<and> r = \<lparr>fullname = strip t, born_date = strip d, born_location = strip l,
                  description = strip b\<rparr>) [?a] [einstein]"
    by (simp add: example_defs strip_def isspace_def)
  then have 1: "parse_authors one_page_web [?a] = Inr [einstein]"
    using parse_authors_all_or_nothing [of one_page_web "[?a]" "[einstein]"] by blast
  have "\<exists>a s. a \<in> set [?b] \<and> one_page_web (author_info_url a) = Some s
          \<and> (h3_author_title s = None \<or> span_author_born_date s = None
             \<or> span_author_born_location s = None \<or> div_author_description s = None)"
    by (simp add: example_defs)
  then have 2: "\<exists>e. parse_authors one_page_web [?b] = Inl e"
    using parse_authors_all_or_nothing [of one_page_web "[?b]" "[]"] by blast
  from 1 2 show ?thesis by simp
qed

section \<open>Quotes: the tags in markup order\<close>

lemma foldE_collect_acc:
  "foldE (\<lambda>x acc. case g x of Inl e \<Rightarrow> Inl e | Inr y \<Rightarrow> Inr (acc @ [y])) xs acc =
     (case foldE (\<lambda>x acc. case g x of Inl e \<Rightarrow> Inl e | Inr y \<Rightarrow> Inr (acc @ [y])) xs [] of
        Inl e \<Rightarrow> Inl e | Inr ys \<Rightarrow> Inr (acc @ ys))"
proof (induction xs arbitrary: acc)
  case Nil
  then show ?case by simp
next
  case (Cons x xs)
  show ?case
  proof (cases "g x")
    case (Inl e)
    then show ?thesis by simp
  next
    case (Inr y)
    then show ?thesis
      using Cons.IH [of "acc @ [y]"] Cons.IH [of "[y]"] by (simp split: sum.splits)
  qed
qed

lemma append_quote_eq:
  "append_quote = (\<lambda>el acc. case parse_quote el of Inl e \<Rightarrow> Inl e | Inr q \<Rightarrow> Inr (acc @ [q]))"
  by (simp add: fun_eq_iff append_quote_def)

lemma quotes_of_soup_acc:
  "quotes_of_soup s acc =
     (case quotes_of_soup s [] of Inl e \<Rightarrow> Inl e | Inr qs \<Rightarrow> Inr (acc @ qs))"
  unfolding quotes_of_soup_def append_quote_eq by (rule foldE_collect_acc)

lemma quotes_of_soup_Inr:
  "quotes_of_soup s [] = Inr qs \<longleftrightarrow>
     list_all2 (\<lambda>el q. parse_quote el = Inr q) (find_all_div_quote s) qs"
  unfolding quotes_of_soup_def append_quote_eq by (simp add: foldE_collect)

lemma parse_quote_Inr:
  "parse_quote el = Inr q \<longleftrightarrow>
     (\<exists>n ns t ts. small_author el = n # ns \<and> span_text el = Some t \<and> div_tags el = Some ts
        \<and> q = \<lparr>tags = map strip ts, author = n, quote = t\<rparr>)"
  by (auto simp: parse_quote_def find_text_def find_small_author_def first_match_def
      split: option.splits list.splits)

lemma parse_quotes_pages:
  "parse_quotes web links = Inr r \<longleftrightarrow>
     (\<exists>yss. list_all2 (\<lambda>url ys. page_quotes web url = Inr ys) links yss \<and> r = concat yss)"
proof -
  have "foldE (\<lambda>url quotes_list.
              case get_soup web url of
                Inl e \<Rightarrow> Inl e
              | Inr s \<Rightarrow> quotes_of_soup s quotes_list) links [] = Inr r \<longleftrightarrow>
     (\<exists>yss. list_all2 (\<lambda>url ys. page_quotes web url = Inr ys) links yss \<and> r = [] @ concat yss)"
  proof (rule foldE_collect_many)
    fix url acc
    show "(case get_soup web url of Inl e \<Rightarrow> Inl e | Inr s \<Rightarrow> quotes_of_soup s acc) =
       (case page_quotes web url of Inl e \<Rightarrow> Inl e | Inr ys \<Rightarrow> Inr (acc @ ys))"
      using quotes_of_soup_acc [of _ acc]
      by (cases "get_soup web url") (simp_all add: page_quotes_def)
  qed
  then show ?thesis by (simp add: parse_quotes_def)
qed

lemma page_quotes_Inr:
  "page_quotes web url = Inr qs \<longleftrightarrow>
     (\<exists>s. web url = Some s \<and> list_all2 (\<lambda>el q. parse_quote el = Inr q) (find_all_div_quote s) qs)"
  by (auto simp: page_quotes_def get_soup_def quotes_of_soup_Inr split: option.splits)

lemma pages_concat:
  "(\<exists>yss. list_all2 (\<lambda>url ys. \<exists>s. web url = Some s \<and> list_all2 P (f s) ys) links yss
       \<and> r = concat yss)
   \<longleftrightarrow> (\<exists>soups. web_soups web links soups \<and> list_all2 P (concat (map f soups)) r)"
proof (induction links arbitrary: r)
  case Nil
  then show ?case by (auto simp: web_soups_def)
next
  case (Cons u us)
  show ?case
  proof
    assume "\<exists>yss. list_all2 (\<lambda>url ys. \<exists>s. web url = Some s \<and> list_all2 P (f s) ys) (u # us) yss
       \<and> r = concat yss"
    then obtain ys yss s where s: "web u = Some s" "list_all2 P (f s) ys"
      and rest: "list_all2 (\<lambda>url ys. \<exists>s. web url = Some s \<and> list_all2 P (f s) ys) us yss"
      and r: "r = ys @ concat yss"
      by (auto simp: list_all2_Cons1)
    from rest Cons.IH [of "concat yss"] obtain soups where
      soups: "web_soups web us soups" "list_all2 P (concat (map f soups)) (concat yss)"
      by blast
    from s soups r have "web_soups web (u # us) (s # soups)
        \<and> list_all2 P (concat (map f (s # soups))) r"
      by (simp add: web_soups_def list_all2_appendI)
    then show "\<exists>soups. web_soups web (u # us) soups \<and> list_all2 P (concat (map f soups)) r"
      by blast
  next
    assume "\<exists>soups. web_soups web (u # us) soups \<and> list_all2 P (concat (map f soups)) r"
    then obtain s soups where s: "web u = Some s" and soups: "web_soups web us soups"
      and all: "list_all2 P (f s @ concat (map f soups)) r"
      by (auto simp: web_soups_def list_all2_Cons1)
    from all obtain ys zs where r: "r = ys @ zs" and ys: "list_all2 P (f s) ys"
      and zs: "list_all2 P (concat (map f soups)) zs"
      by (auto simp: list_all2_append1)
    from soups zs Cons.IH [of zs] obtain yss where
      yss: "list_all2 (\<lambda>url ys. \<exists>s. web url = Some s \<and> list_all2 P (f s) ys) us yss"
        "zs = concat yss"
      by blast
    with s ys r have
      "list_all2 (\<lambda>url ys. \<exists>s. web url = Some s \<and> list_all2 P (f s) ys) (u # us) (ys # yss)
         \<and> r = concat (ys # yss)"
      by auto
    then show "\<exists>yss. list_all2 (\<lambda>url ys. \<exists>s. web url = Some s \<and> list_all2 P (f s) ys) (u # us) yss
       \<and> r = concat yss"
      by blast
  qed
qed

lemma parse_quotes_Inr:
  "parse_quotes web links = Inr r \<longleftrightarrow>
     (\<exists>soups. web_soups web links soups
        \<and> list_all2 (\<lambda>el q. parse_quote el = Inr q) (concat (map find_all_div_quote soups)) r)"
  by (simp add: parse_quotes_pages page_quotes_Inr pages_concat)

text \<open>
  Claim C9. A quote element yields a record exactly when it has an author name, a quote
  text and a \<open>div.tags\<close>; the record's tags are then the texts of the \<open>a.tag\<close> elements
  in markup order, each stripped, one per element: nothing is removed, merged or
  reordered. \<open>parse_quotes\<close> returns a list exactly when every page is fetched and every
  quote element yields a record; the list holds these records in page order and, within a
  page, in document order.
\<close>

theorem parse_quotes_keeps_tag_order:
  "(parse_quote el = Inr q \<longleftrightarrow>
      (\<exists>n ns t ts. small_author el = n # ns \<and> span_text el = Some t \<and> div_tags el = Some ts
         \<and> q = \<lparr>tags = map strip ts, author = n, quote = t\<rparr>))
   \<and> (parse_quotes web links = Inr quotes_list \<longleftrightarrow>
        (\<exists>soups. list_all2 (\<lambda>u s. web u = Some s) links soups
           \<and> list_all2 (\<lambda>el q. parse_quote el = Inr q)
                (concat (map find_all_div_quote soups)) quotes_list))"
  using parse_quote_Inr [of el q] parse_quotes_Inr [of web links quotes_list]
  by (simp add: web_soups_def)

text \<open>The quote element with the tags change, deep-thoughts, thinking, in that order.\<close>

theorem parse_quotes_keeps_tag_order_witness:
  "parse_quote einstein_elem = Inr quote_einstein
   \<and> tags quote_einstein = [''change'', ''deep-thoughts'', ''thinking'']
   \<and> parse_quotes one_page_web [BASE_URL] = Inr [quote_einstein]"
proof -
  have 1: "parse_quote einstein_elem = Inr quote_einstein"
    using parse_quotes_keeps_tag_order [of einstein_elem quote_einstein one_page_web "[]" "[]"]
    by (simp add: example_defs query_defs strip_def isspace_def)
  have "list_all2 (\<lambda>u s. one_page_web u = Some s) [BASE_URL] [listing [Node DivQuote einstein_elem] None]
      \<and> list_all2 (\<lambda>el q. parse_quote el = Inr q)
                (concat (map find_all_div_quote [listing [Node DivQuote einstein_elem] None])) [quote_einstein]"
  proof -
    have "find_all_div_quote (listing [Node DivQuote einstein_elem] None) = [einstein_elem]"
      by (simp add: query_defs listing_def einstein_elem_def tag_links_def)
    with 1 show ?thesis by (simp add: one_page_web_def)
  qed
  then have 2: "parse_quotes one_page_web [BASE_URL] = Inr [quote_einstein]"
    using parse_quotes_keeps_tag_order
      [of einstein_elem quote_einstein one_page_web "[BASE_URL]" "[quote_einstein]"]
    by blast
  from 1 2 show ?thesis by (simp add: quote_einstein_def)
qed

section \<open>Pagination follows the chain of next links\<close>

lemma get_pages_loop_chain:
  assumes "base_link \<noteq> []"
  shows "u \<noteq> [] \<Longrightarrow> next_chain web base_link u hs \<Longrightarrow>
     get_pages_loop web base_link links u = Some (Inr (links @ map (\<lambda>h. base_link @ h) hs))"
proof (induction hs arbitrary: u links)
  case Nil
  then obtain s where "web u = Some s" "li_next s = None"
    by (auto split: option.splits)
  with Nil.prems(1) show ?case
    by (subst get_pages_loop.simps) (simp add: get_soup_def)
next
  case (Cons h hs)
  from Cons.prems(2) obtain s li a where s: "web u = Some s" "li_next s = Some li"
    "li_a li = Some a" "attrs_get_href a = h" and rest: "next_chain web base_link (base_link @ h) hs"
    by (auto split: option.splits)
  from assms have "base_link @ h \<noteq> []" by simp
  from Cons.IH [OF this rest, of "links @ [base_link @ h]"] s Cons.prems(1)
  show ?case
    by (subst get_pages_loop.simps) (simp add: get_soup_def)
qed

text \<open>
  Claim C6, as amended. For a non-empty seed URL and a finite chain of next links from
  the seed page, \<open>get_pages\<close> returns: it stops at the first page without a next link
  and yields the seed URL followed, page by page in crawl order, by the seed URL
  extended with the \<open>href\<close> of the page before. The \<open>href\<close>s are not accumulated: the
  chain seed, A, B gives seed, seed + A, seed + B.
\<close>

theorem get_pages_follows_chain:
  assumes "base_link \<noteq> []" and "next_chain web base_link base_link hs"
  shows "get_pages web base_link = Some (Inr (base_link # map (\<lambda>h. base_link @ h) hs))"
  using get_pages_loop_chain [OF assms(1) assms(1) assms(2), of "[base_link]"]
  by (simp add: get_pages_def)

lemma three_page_chain: "next_chain three_page_web BASE_URL BASE_URL [''/page/2/'', ''/page/3/'']"
  by (simp add: three_page_web_def BASE_URL_def listing_def attrs_get_href_def)

theorem get_pages_follows_chain_witness:
  "BASE_URL \<noteq> [] \<and> next_chain three_page_web BASE_URL BASE_URL [''/page/2/'', ''/page/3/'']
   \<and> get_pages three_page_web BASE_URL =
       Some (Inr [BASE_URL, BASE_URL @ ''/page/2/'', BASE_URL @ ''/page/3/''])"
proof -
  have b: "BASE_URL \<noteq> []" by (simp add: BASE_URL_def)
  from get_pages_follows_chain [OF b three_page_chain] b three_page_chain
  show ?thesis by simp
qed

text \<open>
  The chain seed, A, B with A = /page/2/ and B = /page/3/: the third entry is seed + B,
  not seed + A + B.
\<close>

theorem get_pages_accumulates_counterexample:
  "next_chain three_page_web BASE_URL BASE_URL [''/page/2/'', ''/page/3/'']
   \<and> get_pages three_page_web BASE_URL =
       Some (Inr [BASE_URL, BASE_URL @ ''/page/2/'', BASE_URL @ ''/page/3/''])
   \<and> get_pages three_page_web BASE_URL \<noteq>
       Some (Inr [BASE_URL, BASE_URL @ ''/page/2/'', BASE_URL @ ''/page/2/'' @ ''/page/3/''])"
proof -
  have b: "BASE_URL \<noteq> []" by (simp add: BASE_URL_def)
  have "get_pages three_page_web BASE_URL =
       Some (Inr [BASE_URL, BASE_URL @ ''/page/2/'', BASE_URL @ ''/page/3/''])"
    using get_pages_loop_chain [OF b b three_page_chain, of "[BASE_URL]"]
    by (simp add: get_pages_def)
  with three_page_chain show ?thesis by simp
qed

section \<open>Deduplication of author references\<close>

lemma author_found_iff: "author_found acc n \<longleftrightarrow> n \<in> author_name ` set acc"
  by (auto simp: author_found_def list_ex_iff)

lemma set_dedupe_subset: "set (dedupe rs) \<subseteq> set rs"
  by (induction rs rule: dedupe.induct) auto

lemma names_dedupe: "author_name ` set (dedupe rs) = author_name ` set rs"
proof (induction rs rule: dedupe.induct)
  case 1
  then show ?case by simp
next
  case (2 r rs)
  then show ?case by auto
qed

lemma distinct_dedupe: "distinct (map author_name (dedupe rs))"
proof (induction rs rule: dedupe.induct)
  case 1
  then show ?case by simp
next
  case (2 r rs)
  have "author_name r \<notin> author_name ` set (filter (\<lambda>x. author_name x \<noteq> author_name r) rs)"
    by auto
  with 2 show ?case by (simp add: names_dedupe)
qed

lemma subseq_dedupe: "subseq (dedupe rs) rs"
proof (induction rs rule: dedupe.induct)
  case 1
  then show ?case by simp
next
  case (2 r rs)
  have "subseq (filter (\<lambda>x. author_name x \<noteq> author_name r) rs) rs"
    by (rule subseq_filter_left)
  with 2 have "subseq (dedupe (filter (\<lambda>x. author_name x \<noteq> author_name r) rs)) rs"
    by (rule subseq_order.trans)
  then show ?case by simp
qed

lemma find_filter_other:
  "n \<noteq> m \<Longrightarrow> find (\<lambda>x. author_name x = n) (filter (\<lambda>x. author_name x \<noteq> m) rs) =
     find (\<lambda>x. author_name x = n) rs"
  by (induction rs) auto

lemma dedupe_first_occurrence:
  "r \<in> set (dedupe rs) \<Longrightarrow> find (\<lambda>x. author_name x = author_name r) rs = Some r"
proof (induction rs rule: dedupe.induct)
  case 1
  then show ?case by simp
next
  case (2 r' rs)
  show ?case
  proof (cases "r = r'")
    case True
    then show ?thesis by simp
  next
    case False
    with "2.prems" have in_rest: "r \<in> set (dedupe (filter (\<lambda>x. author_name x \<noteq> author_name r') rs))"
      by simp
    then have "r \<in> set (filter (\<lambda>x. author_name x \<noteq> author_name r') rs)"
      using set_dedupe_subset by blast
    then have ne: "author_name r \<noteq> author_name r'" by simp
    from "2.IH" [OF in_rest] ne show ?thesis
      by (simp add: find_filter_other)
  qed
qed

lemma fold_dedupe_step:
  "fold dedupe_step rs acc =
     acc @ dedupe (filter (\<lambda>x. \<not> author_found acc (author_name x)) rs)"
proof (induction rs arbitrary: acc)
  case Nil
  then show ?case by simp
next
  case (Cons r rs)
  show ?case
  proof (cases "author_found acc (author_name r)")
    case True
    then have "dedupe_step r acc = acc" by (simp add: dedupe_step_def)
    with True show ?thesis by (simp add: Cons.IH)
  next
    case False
    then have step: "dedupe_step r acc = acc @ [r]" by (simp add: dedupe_step_def)
    have "filter (\<lambda>x. \<not> author_found (acc @ [r]) (author_name x)) rs =
        filter (\<lambda>x. author_name x \<noteq> author_name r)
          (filter (\<lambda>x. \<not> author_found acc (author_name x)) rs)"
      by (auto simp: author_found_iff intro: filter_cong)
    with False step show ?thesis by (simp add: Cons.IH)
  qed
qed

lemma author_step_complete:
  assumes "refs_complete s" and "el < length (find_all_small_author s)"
  shows "author_step base_url (find_all_small_author s) (find_all_div_quote s) el acc =
     Inr (dedupe_step (page_refs base_url s ! el) acc)"
proof -
  from assms have lt: "el < length (find_all_div_quote s)"
    and a: "a_noclass (find_all_div_quote s ! el) \<noteq> None"
    by (auto simp: refs_complete_def list_all_length)
  from assms(2) lt have
    "page_refs base_url s ! el =
       \<lparr>author_name = find_all_small_author s ! el,
        author_info_url = elem_url base_url (find_all_div_quote s ! el)\<rparr>"
    by (simp add: page_refs_def)
  with lt a show ?thesis
    by (auto simp: author_step_def dedupe_step_def elem_url_def)
qed

lemma foldE_upt_steps:
  assumes "\<And>i acc. i < n \<Longrightarrow> f i acc = Inr (g (rs ! i) acc)" and "k \<le> n" and "n \<le> length rs"
  shows "foldE f [0 ..< k] acc = Inr (fold g (take k rs) acc)"
  using assms(2)
proof (induction k)
  case 0
  then show ?case by simp
next
  case (Suc k)
  then have "k < n" "k < length rs" using assms(3) by simp_all
  with Suc assms(1) show ?case
    by (simp add: foldE_append take_Suc_conv_app_nth)
qed

lemma authors_of_soup_complete:
  assumes "refs_complete s"
  shows "authors_of_soup base_url s acc = Inr (fold dedupe_step (page_refs base_url s) acc)"
proof -
  from assms have len: "length (page_refs base_url s) = length (find_all_small_author s)"
    by (simp add: page_refs_def refs_complete_def)
  have "foldE (author_step base_url (find_all_small_author s) (find_all_div_quote s))
      [0 ..< length (find_all_small_author s)] acc =
    Inr (fold dedupe_step (take (length (find_all_small_author s)) (page_refs base_url s)) acc)"
    by (rule foldE_upt_steps [where n = "length (find_all_small_author s)"])
       (simp_all add: author_step_complete [OF assms] len)
  then show ?thesis by (simp add: authors_of_soup_def len [symmetric])
qed

lemma get_authors_info_complete:
  assumes "list_all2 (\<lambda>u s. web u = Some s) urls soups" and "list_all refs_complete soups"
  shows "foldE (authors_of_page web base_url) urls acc =
     Inr (fold dedupe_step (concat (map (page_refs base_url) soups)) acc)"
  using assms
proof (induction urls soups arbitrary: acc rule: list_all2_induct)
  case Nil
  then show ?case by simp
next
  case (Cons u urls s soups)
  then show ?case
    by (simp add: authors_of_page_def get_soup_def authors_of_soup_complete)
qed

text \<open>
  Claim C5. On pages that are fetched and whose author-name elements each have a
  reference, \<open>get_authors_info\<close> returns the deduplication of the sequence of references
  in page and document order: exactly one reference per distinct name, the names without
  repetition, in the order of the first occurrences, each emitted reference being the
  first of its name in the sequence, whatever the profile URLs of the later ones.
\<close>

theorem get_authors_info_dedupes:
  assumes "list_all2 (\<lambda>u s. web u = Some s) urls soups" and "list_all refs_complete soups"
  shows "get_authors_info web base_url urls = Inr (dedupe (concat (map (page_refs base_url) soups)))
    \<and> distinct (map author_name (dedupe (concat (map (page_refs base_url) soups))))
    \<and> author_name ` set (dedupe (concat (map (page_refs base_url) soups))) =
        author_name ` set (concat (map (page_refs base_url) soups))
    \<and> subseq (dedupe (concat (map (page_refs base_url) soups)))
        (concat (map (page_refs base_url) soups))
    \<and> (\<forall>r \<in> set (dedupe (concat (map (page_refs base_url) soups))).
          find (\<lambda>x. author_name x = author_name r) (concat (map (page_refs base_url) soups))
            = Some r)"
proof -
  have "get_authors_info web base_url urls =
      Inr (dedupe (concat (map (page_refs base_url) soups)))"
    using get_authors_info_complete [OF assms, of base_url "[]"]
    by (simp add: get_authors_info_def fold_dedupe_step author_found_def)
  then show ?thesis
    by (simp add: distinct_dedupe names_dedupe subseq_dedupe dedupe_first_occurrence)
qed

lemmas page_defs = example_defs rowling_elem_def einstein_elem2_def page_one_def page_two_def
  two_page_web_def query_defs

theorem get_authors_info_dedupes_witness:
  "list_all2 (\<lambda>u s. two_page_web u = Some s) [BASE_URL, BASE_URL @ ''/page/2/''] [page_one, page_two]
   \<and> list_all refs_complete [page_one, page_two]
   \<and> concat (map (page_refs BASE_URL) [page_one, page_two]) =
       [\<lparr>author_name = ''Albert Einstein'',
         author_info_url = BASE_URL @ ''/author/Albert-Einstein''\<rparr>,
        \<lparr>author_name = ''J.K. Rowling'', author_info_url = BASE_URL @ ''/author/J-K-Rowling''\<rparr>,
        \<lparr>author_name = ''Albert Einstein'', author_info_url = BASE_URL @ ''/author/Einstein''\<rparr>]
   \<and> get_authors_info two_page_web BASE_URL [BASE_URL, BASE_URL @ ''/page/2/''] =
       Inr [\<lparr>author_name = ''Albert Einstein'',
              author_info_url = BASE_URL @ ''/author/Albert-Einstein''\<rparr>,
            \<lparr>author_name = ''J.K. Rowling'',
              author_info_url = BASE_URL @ ''/author/J-K-Rowling''\<rparr>]"
proof -
  have 1: "list_all2 (\<lambda>u s. two_page_web u = Some s) [BASE_URL, BASE_URL @ ''/page/2/'']
      [page_one, page_two]"
    by (simp add: two_page_web_def BASE_URL_def)
  have 2: "list_all refs_complete [page_one, page_two]"
    by (simp add: refs_complete_def page_defs)
  have 3: "concat (map (page_refs BASE_URL) [page_one, page_two]) =
       [\<lparr>author_name = ''Albert Einstein'',
         author_info_url = BASE_URL @ ''/author/Albert-Einstein''\<rparr>,
        \<lparr>author_name = ''J.K. Rowling'', author_info_url = BASE_URL @ ''/author/J-K-Rowling''\<rparr>,
        \<lparr>author_name = ''Albert Einstein'', author_info_url = BASE_URL @ ''/author/Einstein''\<rparr>]"
    by (simp add: page_refs_def elem_url_def attrs_get_href_def page_defs)
  from get_authors_info_dedupes [OF 1 2, of BASE_URL] 1 2 3 show ?thesis
    by simp
qed

section \<open>Names and links paired by position\<close>

lemma concat_map_concat:
  "concat (map f (concat xss)) = concat (map (\<lambda>xs. concat (map f xs)) xss)"
  by (induction xss) auto

lemma list_all2_concat_map:
  "(\<And>x. x \<in> set xs \<Longrightarrow> list_all2 P (f x) (g x)) \<Longrightarrow>
     list_all2 P (concat (map f xs)) (concat (map g xs))"
  by (induction xs) (auto intro: list_all2_appendI)

text \<open>The author names and the quote elements of an element and its descendants.\<close>

lemma authors_of_node:
  "concat (map author_text (nodes (Node k ns))) = author_text (Node k ns) @ find_all_small ns"
  by (simp add: find_all_small_def descendants_def)

lemma quotes_of_node:
  "concat (map quote_content (nodes (Node k ns))) = quote_content (Node k ns) @ find_all_quote ns"
  by (simp add: find_all_quote_def descendants_def)

lemma find_all_small_forest:
  "find_all_small ns = concat (map (\<lambda>t. concat (map author_text (nodes t))) ns)"
  by (simp add: find_all_small_def descendants_def concat_map_concat comp_def)

lemma find_all_quote_forest:
  "find_all_quote ns = concat (map (\<lambda>t. concat (map quote_content (nodes t))) ns)"
  by (simp add: find_all_quote_def descendants_def concat_map_concat comp_def)

text \<open>
  Without author names outside quote elements and without nested quote elements, each
  holding one author name, the names and the quote elements of a tree correspond one to
  one, in document order.
\<close>

lemma aligned_node:
  "stray_authors t = [] \<Longrightarrow>
   list_all (\<lambda>q. find_all_quote q = []) (concat (map quote_content (nodes t))) \<Longrightarrow>
   list_all (\<lambda>q. length (small_author q) = 1) (concat (map quote_content (nodes t))) \<Longrightarrow>
   list_all2 (\<lambda>n q. small_author q = [n])
     (concat (map author_text (nodes t))) (concat (map quote_content (nodes t)))"
proof (induction t)
  case (Node k ns)
  show ?case
  proof (cases "k = DivQuote")
    case True
    with Node.prems(2) have inner: "find_all_quote ns = []"
      unfolding quotes_of_node by simp
    from True Node.prems(3) have "length (small_author ns) = 1"
      unfolding quotes_of_node by simp
    then obtain n where "small_author ns = [n]"
      by (cases "small_author ns") auto
    with True inner show ?thesis
      unfolding authors_of_node quotes_of_node by (simp add: small_author_def)
  next
    case False
    from Node.prems(1) have no_author: "author_text (Node k ns) = []"
      by (cases k) auto
    from False have no_quote: "quote_content (Node k ns) = []"
      by (cases k) auto
    from False Node.prems(1) have stray: "concat (map stray_authors ns) = []"
      by (cases k) auto
    have "list_all2 (\<lambda>n q. small_author q = [n])
        (concat (map author_text (nodes t))) (concat (map quote_content (nodes t)))"
      if t: "t \<in> set ns" for t
    proof (rule Node.IH [OF t])
      from stray t show "stray_authors t = []" by auto
      from Node.prems(2) t show
        "list_all (\<lambda>q. find_all_quote q = []) (concat (map quote_content (nodes t)))"
        unfolding quotes_of_node no_quote find_all_quote_forest
        by (auto simp: list_all_iff)
      from Node.prems(3) t show
        "list_all (\<lambda>q. length (small_author q) = 1) (concat (map quote_content (nodes t)))"
        unfolding quotes_of_node no_quote find_all_quote_forest
        by (auto simp: list_all_iff)
    qed
    then have "list_all2 (\<lambda>n q. small_author q = [n]) (find_all_small ns) (find_all_quote ns)"
      unfolding find_all_small_forest find_all_quote_forest by (rule list_all2_concat_map)
    with no_author no_quote show ?thesis
      unfolding authors_of_node quotes_of_node by simp
  qed
qed

lemma aligned_page:
  assumes "authors_inside_quotes s" and "quotes_not_nested s" and "one_author_each s"
  shows "list_all2 (\<lambda>n q. small_author q = [n]) (find_all_small_author s) (find_all_div_quote s)"
proof -
  have "list_all2 (\<lambda>n q. small_author q = [n])
      (concat (map author_text (nodes t))) (concat (map quote_content (nodes t)))"
    if t: "t \<in> set (blocks s)" for t
  proof (rule aligned_node)
    from assms(1) t show "stray_authors t = []"
      by (auto simp: authors_inside_quotes_def)
    from assms(2) t show
      "list_all (\<lambda>q. find_all_quote q = []) (concat (map quote_content (nodes t)))"
      unfolding quotes_not_nested_def find_all_div_quote_def find_all_quote_forest
      by (auto simp: list_all_iff)
    from assms(3) t show
      "list_all (\<lambda>q. length (small_author q) = 1) (concat (map quote_content (nodes t)))"
      unfolding one_author_each_def find_all_div_quote_def find_all_quote_forest
      by (auto simp: list_all_iff)
  qed
  then show ?thesis
    unfolding find_all_small_author_def find_all_div_quote_def
      find_all_small_forest find_all_quote_forest
    by (rule list_all2_concat_map)
qed

lemma foldE_author_step_IndexError:
  "foldE (author_step base_url authors qs) is acc = Inl IndexError \<Longrightarrow>
     \<exists>i \<in> set is. \<not> i < length qs"
proof (induction "is" arbitrary: acc)
  case Nil
  then show ?case by simp
next
  case (Cons i "is")
  show ?case
  proof (cases "author_step base_url authors qs i acc")
    case (Inl e)
    with Cons.prems have "author_step base_url authors qs i acc = Inl IndexError" by simp
    then have "\<not> i < length qs"
      by (auto simp: author_step_def split: if_splits option.splits)
    then show ?thesis by simp
  next
    case (Inr acc')
    with Cons show ?thesis by auto
  qed
qed

lemma author_step_linked:
  assumes "el < length qs" and "a_noclass (qs ! el) \<noteq> None"
  shows "author_step base_url authors qs el acc =
     Inr (dedupe_step \<lparr>author_name = authors ! el, author_info_url = elem_url base_url (qs ! el)\<rparr> acc)"
  using assms by (auto simp: author_step_def dedupe_step_def elem_url_def)

lemma author_step_beyond:
  assumes "\<not> el < length qs"
  shows "author_step base_url authors qs el acc =
     (if author_found acc (authors ! el) then Inr acc else Inl IndexError)"
  using assms by (simp add: author_step_def)

lemma foldE_guard:
  assumes "\<And>x s. x \<in> set xs \<Longrightarrow> f x s = (if P x s then Inr s else Inl e)"
  shows "foldE f xs s = (if list_all (\<lambda>x. P x s) xs then Inr s else Inl e)"
  using assms by (induction xs) auto

lemma names_fold_dedupe_step:
  "author_name ` set (fold dedupe_step rs acc) = author_name ` set acc \<union> author_name ` set rs"
proof -
  have "author_name ` set (dedupe (filter (\<lambda>x. \<not> author_found acc (author_name x)) rs)) =
      author_name ` set rs - author_name ` set acc"
    by (auto simp: names_dedupe author_found_iff)
  then show ?thesis by (auto simp: fold_dedupe_step)
qed

lemma index_error_iff:
  assumes links: "list_all (\<lambda>q. a_noclass q \<noteq> None) qs"
  shows "foldE (author_step base_url authors qs) [0 ..< length authors] acc = Inl IndexError
     \<longleftrightarrow> \<not> set (drop (length qs) authors) \<subseteq> author_name ` set acc \<union> set (take (length qs) authors)"
proof -
  define m where "m = min (length authors) (length qs)"
  define rs where "rs = map (\<lambda>(n, q). \<lparr>author_name = n, author_info_url = elem_url base_url q\<rparr>)
       (zip authors qs)"
  define acc1 where "acc1 = fold dedupe_step rs acc"
  have len: "length rs = m" by (simp add: rs_def m_def)
  have names_rs: "author_name ` set rs = set (take (length qs) authors)"
  proof -
    have "map author_name rs = map fst (zip authors qs)"
      by (simp add: rs_def case_prod_unfold)
    also have "\<dots> = take (length qs) authors"
      by (simp add: map_fst_zip_take min_def)
    finally have "set (map author_name rs) = set (take (length qs) authors)" by simp
    then show ?thesis by simp
  qed
  have first: "foldE (author_step base_url authors qs) [0 ..< m] acc = Inr acc1"
  proof -
    have "foldE (author_step base_url authors qs) [0 ..< m] acc =
        Inr (fold dedupe_step (take m rs) acc)"
    proof (rule foldE_upt_steps [where n = m])
      fix i acc' assume i: "i < m"
      then have "i < length qs" "i < length authors" by (simp_all add: m_def)
      moreover from this links have "a_noclass (qs ! i) \<noteq> None"
        by (simp add: list_all_length)
      moreover from \<open>i < length qs\<close> \<open>i < length authors\<close> have
        "rs ! i = \<lparr>author_name = authors ! i, author_info_url = elem_url base_url (qs ! i)\<rparr>"
        by (simp add: rs_def)
      ultimately show "author_step base_url authors qs i acc' = Inr (dedupe_step (rs ! i) acc')"
        by (simp add: author_step_linked)
    qed (simp_all add: len)
    then show ?thesis by (simp add: acc1_def len)
  qed
  have second: "foldE (author_step base_url authors qs) [m ..< length authors] acc1 =
      (if list_all (\<lambda>i. author_found acc1 (authors ! i)) [m ..< length authors]
       then Inr acc1 else Inl IndexError)"
  proof (rule foldE_guard)
    fix i s assume "i \<in> set [m ..< length authors]"
    then have "\<not> i < length qs" by (auto simp: m_def)
    then show "author_step base_url authors qs i s =
        (if author_found s (authors ! i) then Inr s else Inl IndexError)"
      by (rule author_step_beyond)
  qed
  have split: "[0 ..< length authors] = [0 ..< m] @ [m ..< length authors]"
    by (metis le_add_diff_inverse m_def min.cobounded1 upt_add_eq_append zero_le)
  have "foldE (author_step base_url authors qs) [0 ..< length authors] acc = Inl IndexError
      \<longleftrightarrow> \<not> list_all (\<lambda>i. author_found acc1 (authors ! i)) [m ..< length authors]"
    by (subst split) (simp add: foldE_append first second)
  also have "list_all (\<lambda>i. author_found acc1 (authors ! i)) [m ..< length authors]
      \<longleftrightarrow> set (drop (length qs) authors) \<subseteq> author_name ` set acc1"
  proof
    assume a: "list_all (\<lambda>i. author_found acc1 (authors ! i)) [m ..< length authors]"
    show "set (drop (length qs) authors) \<subseteq> author_name ` set acc1"
    proof
      fix n assume "n \<in> set (drop (length qs) authors)"
      then obtain j where j: "j < length authors - length qs" "n = authors ! (length qs + j)"
        by (auto simp: in_set_conv_nth)
      then have "length qs + j \<in> set [m ..< length authors]" by (auto simp: m_def)
      with a have "author_found acc1 (authors ! (length qs + j))"
        by (simp add: list_all_iff del: set_upt)
      with j show "n \<in> author_name ` set acc1" by (simp add: author_found_iff)
    qed
  next
    assume a: "set (drop (length qs) authors) \<subseteq> author_name ` set acc1"
    have "author_found acc1 (authors ! i)" if "i \<in> set [m ..< length authors]" for i
    proof -
      from that have i: "length qs \<le> i" "i < length authors" by (auto simp: m_def)
      then have "authors ! i = drop (length qs) authors ! (i - length qs)" by simp
      moreover from i have "i - length qs < length (drop (length qs) authors)" by simp
      ultimately have "authors ! i \<in> set (drop (length qs) authors)"
        by (metis nth_mem)
      with a show ?thesis by (auto simp: author_found_iff)
    qed
    then show "list_all (\<lambda>i. author_found acc1 (authors ! i)) [m ..< length authors]"
      by (simp add: list_all_iff del: set_upt)
  qed
  also have "author_name ` set acc1 = author_name ` set acc \<union> set (take (length qs) authors)"
    by (simp add: acc1_def names_fold_dedupe_step names_rs)
  finally show ?thesis .
qed

text \<open>
  The loop over the author-name elements of a page, index by index: it adds a reference
  exactly at the indices of \<open>new_author_indices\<close>, and the reference added at index \<open>i\<close>
  holds the name at \<open>i\<close> and the link of the quote element at \<open>i\<close>. It returns exactly
  when each of these indices has a quote element with a link.
\<close>

lemma author_name_ref_at [simp]: "author_name (ref_at base_url A Q i) = A ! i"
  by (simp add: ref_at_def)

lemma found_after_prefix:
  assumes "k < length A"
  shows "author_found
      (acc @ map (ref_at base_url A Q)
         (filter (\<lambda>i. \<not> author_found acc (A ! i) \<and> A ! i \<notin> set (take i A)) [0 ..< k]))
      (A ! k)
    \<longleftrightarrow> author_found acc (A ! k) \<or> A ! k \<in> set (take k A)"
    (is "author_found (acc @ map _ (filter ?new _)) _ \<longleftrightarrow> _")
proof
  assume "author_found (acc @ map (ref_at base_url A Q) (filter ?new [0 ..< k])) (A ! k)"
  then have "author_found acc (A ! k) \<or> (\<exists>i<k. A ! i = A ! k)"
    by (auto simp: author_found_iff)
  with assms show "author_found acc (A ! k) \<or> A ! k \<in> set (take k A)"
    by (auto simp: in_set_conv_nth)
next
  assume r: "author_found acc (A ! k) \<or> A ! k \<in> set (take k A)"
  show "author_found (acc @ map (ref_at base_url A Q) (filter ?new [0 ..< k])) (A ! k)"
  proof (cases "author_found acc (A ! k)")
    case True
    then show ?thesis by (auto simp: author_found_iff)
  next
    case False
    with r assms have ex: "\<exists>i. i < k \<and> A ! i = A ! k"
      by (auto simp: in_set_conv_nth)
    define i where "i = (LEAST i. i < k \<and> A ! i = A ! k)"
    from ex have "i < k \<and> A ! i = A ! k"
      unfolding i_def by (rule LeastI_ex)
    then have i: "i < k" "A ! i = A ! k" by simp_all
    have least: "\<not> (j < k \<and> A ! j = A ! k)" if "j < i" for j
      using that unfolding i_def by (rule not_less_Least)
    have "A ! i \<notin> set (take i A)"
    proof
      assume "A ! i \<in> set (take i A)"
      then obtain j where "j < i" "A ! j = A ! i"
        using i(1) assms by (auto simp: in_set_conv_nth)
      with i least [of j] show False by simp
    qed
    with False i have "?new i" by simp
    with i(1) have "i \<in> set (filter ?new [0 ..< k])" by simp
    then have "A ! i \<in> author_name ` set (map (ref_at base_url A Q) (filter ?new [0 ..< k]))"
      by (force simp del: set_filter set_upt)
    with i(2) show ?thesis by (auto simp: author_found_iff)
  qed
qed

lemma author_loop_prefix:
  assumes "k \<le> length A"
  shows "foldE (author_step base_url A Q) [0 ..< k] acc = Inr out \<longleftrightarrow>
     list_all (\<lambda>i. i < length Q \<and> a_noclass (Q ! i) \<noteq> None)
       (filter (\<lambda>i. \<not> author_found acc (A ! i) \<and> A ! i \<notin> set (take i A)) [0 ..< k])
     \<and> out = acc @ map (ref_at base_url A Q)
         (filter (\<lambda>i. \<not> author_found acc (A ! i) \<and> A ! i \<notin> set (take i A)) [0 ..< k])"
  using assms
proof (induction k arbitrary: out)
  case 0
  then show ?case by auto
next
  case (Suc k)
  let ?new = "\<lambda>i. \<not> author_found acc (A ! i) \<and> A ! i \<notin> set (take i A)"
  let ?ok = "\<lambda>i. i < length Q \<and> a_noclass (Q ! i) \<noteq> None"
  let ?acc = "acc @ map (ref_at base_url A Q) (filter ?new [0 ..< k])"
  from Suc.prems have k: "k < length A" "k \<le> length A" by simp_all
  note IH = Suc.IH [OF k(2)]
  have found: "author_found ?acc (A ! k) \<longleftrightarrow> \<not> ?new k"
    using found_after_prefix [OF k(1), of acc base_url Q] by simp
  show ?case
  proof (cases "foldE (author_step base_url A Q) [0 ..< k] acc")
    case (Inl e)
    then have "\<not> list_all ?ok (filter ?new [0 ..< k])"
      using IH [of ?acc] by simp
    with Inl show ?thesis by (simp add: foldE_append)
  next
    case (Inr acc')
    with IH [of acc'] have ok: "list_all ?ok (filter ?new [0 ..< k])" and acc': "acc' = ?acc"
      by simp_all
    show ?thesis
    proof (cases "?new k")
      case False
      with found have "author_step base_url A Q k ?acc = Inr ?acc"
        by (simp add: author_step_def)
      with Inr acc' ok False show ?thesis by (auto simp: foldE_append)
    next
      case True
      with found have nf: "\<not> author_found ?acc (A ! k)" by simp
      show ?thesis
      proof (cases "?ok k")
        case True
        then obtain a where a: "a_noclass (Q ! k) = Some a" by auto
        with True nf have "author_step base_url A Q k ?acc =
            Inr (?acc @ [ref_at base_url A Q k])"
          by (simp add: author_step_def ref_at_def elem_url_def)
        with Inr acc' ok True \<open>?new k\<close> show ?thesis by (auto simp: foldE_append)
      next
        case False
        with nf have "\<exists>e. author_step base_url A Q k ?acc = Inl e"
          by (auto simp: author_step_def split: option.splits)
        with Inr acc' False \<open>?new k\<close> show ?thesis by (auto simp: foldE_append)
      qed
    qed
  qed
qed

lemma authors_of_soup_Inr:
  "authors_of_soup base_url s acc = Inr out \<longleftrightarrow>
     list_all (\<lambda>i. i < length (find_all_div_quote s) \<and> a_noclass (find_all_div_quote s ! i) \<noteq> None)
       (new_author_indices acc (find_all_small_author s))
     \<and> out = acc @ map (ref_at base_url (find_all_small_author s) (find_all_div_quote s))
         (new_author_indices acc (find_all_small_author s))"
  unfolding authors_of_soup_def new_author_indices_def
  by (rule author_loop_prefix) simp

text \<open>
  Claim C10, as amended. \<open>get_authors_info\<close> reads the profile link of the author-name
  element at index \<open>el\<close> of a page from the quote element at index \<open>el\<close>.
  \<^item> On every page the loop adds a reference at the index \<open>i\<close> of an author-name element
    exactly when the name there is neither collected before the page nor shown at a
    lower index, and that reference holds the name at \<open>i\<close> and the link of the quote
    element at \<open>i\<close>; the loop returns exactly when each of these indices has a quote
    element with a link.
  \<^item> On a page whose author-name elements all lie inside quote elements, no quote element
    inside another, each quote element containing exactly one author-name element, the
    two lists align (the name at an index is the one name of the quote element at that
    index), no read is out of range, and the quote element read for a name is its own.
  \<^item> On a page whose quote elements all have a link, the read fails with an out-of-range
    error exactly when an author-name element beyond the last quote element carries a
    name that was neither collected before the page nor shown by an author-name element
    that has a quote element at its index; a page with more author-name elements than
    quote elements raises nothing when all the surplus names are known.
\<close>

theorem author_links_paired_by_position:
  "(authors_of_soup base_url s acc = Inr out \<longleftrightarrow>
      list_all (\<lambda>i. i < length (find_all_div_quote s) \<and> a_noclass (find_all_div_quote s ! i) \<noteq> None)
        (new_author_indices acc (find_all_small_author s))
      \<and> out = acc @ map (\<lambda>i. \<lparr>author_name = find_all_small_author s ! i,
                               author_info_url = elem_url base_url (find_all_div_quote s ! i)\<rparr>)
                       (new_author_indices acc (find_all_small_author s)))
   \<and> (authors_inside_quotes s \<and> quotes_not_nested s \<and> one_author_each s \<longrightarrow>
        list_all2 (\<lambda>n q. small_author q = [n]) (find_all_small_author s) (find_all_div_quote s)
        \<and> authors_of_soup base_url s acc \<noteq> Inl IndexError
        \<and> list_all (\<lambda>i. i < length (find_all_div_quote s)
                       \<and> small_author (find_all_div_quote s ! i) = [find_all_small_author s ! i])
             (new_author_indices acc (find_all_small_author s)))
   \<and> (list_all (\<lambda>q. a_noclass q \<noteq> None) (find_all_div_quote s) \<longrightarrow>
        (authors_of_soup base_url s acc = Inl IndexError \<longleftrightarrow>
           \<not> set (drop (length (find_all_div_quote s)) (find_all_small_author s))
               \<subseteq> author_name ` set acc
                 \<union> set (take (length (find_all_div_quote s)) (find_all_small_author s))))"
proof (intro conjI impI)
  have "ref_at base_url (find_all_small_author s) (find_all_div_quote s) =
      (\<lambda>i. \<lparr>author_name = find_all_small_author s ! i,
            author_info_url = elem_url base_url (find_all_div_quote s ! i)\<rparr>)"
    by (simp add: fun_eq_iff ref_at_def)
  then show "authors_of_soup base_url s acc = Inr out \<longleftrightarrow>
      list_all (\<lambda>i. i < length (find_all_div_quote s) \<and> a_noclass (find_all_div_quote s ! i) \<noteq> None)
        (new_author_indices acc (find_all_small_author s))
      \<and> out = acc @ map (\<lambda>i. \<lparr>author_name = find_all_small_author s ! i,
                               author_info_url = elem_url base_url (find_all_div_quote s ! i)\<rparr>)
                       (new_author_indices acc (find_all_small_author s))"
    using authors_of_soup_Inr [of base_url s acc out] by simp
next
  assume "authors_inside_quotes s \<and> quotes_not_nested s \<and> one_author_each s"
  then show "list_all2 (\<lambda>n q. small_author q = [n])
      (find_all_small_author s) (find_all_div_quote s)"
    by (simp add: aligned_page)
next
  assume "authors_inside_quotes s \<and> quotes_not_nested s \<and> one_author_each s"
  then have "length (find_all_small_author s) = length (find_all_div_quote s)"
    using aligned_page [of s] by (auto dest: list_all2_lengthD)
  then show "authors_of_soup base_url s acc \<noteq> Inl IndexError"
    using foldE_author_step_IndexError
      [of base_url "find_all_small_author s" "find_all_div_quote s"
        "[0 ..< length (find_all_small_author s)]" acc]
    by (auto simp: authors_of_soup_def)
next
  assume "authors_inside_quotes s \<and> quotes_not_nested s \<and> one_author_each s"
  then have al: "list_all2 (\<lambda>n q. small_author q = [n])
      (find_all_small_author s) (find_all_div_quote s)"
    by (simp add: aligned_page)
  have "i < length (find_all_div_quote s)
      \<and> small_author (find_all_div_quote s ! i) = [find_all_small_author s ! i]"
    if "i \<in> set (new_author_indices acc (find_all_small_author s))" for i
  proof -
    from that have i: "i < length (find_all_small_author s)"
      by (simp add: new_author_indices_def)
    with al show ?thesis
      by (auto dest: list_all2_lengthD list_all2_nthD)
  qed
  then show "list_all (\<lambda>i. i < length (find_all_div_quote s)
                       \<and> small_author (find_all_div_quote s ! i) = [find_all_small_author s ! i])
             (new_author_indices acc (find_all_small_author s))"
    unfolding list_all_iff by blast
next
  assume "list_all (\<lambda>q. a_noclass q \<noteq> None) (find_all_div_quote s)"
  then show "authors_of_soup base_url s acc = Inl IndexError \<longleftrightarrow>
           \<not> set (drop (length (find_all_div_quote s)) (find_all_small_author s))
               \<subseteq> author_name ` set acc
                 \<union> set (take (length (find_all_div_quote s)) (find_all_small_author s))"
    unfolding authors_of_soup_def by (rule index_error_iff)
qed

lemmas page_defs2 = page_defs sidebar_page_def twice_page_def nested_page_def

lemma page_one_lists:
  "find_all_small_author page_one = [''Albert Einstein'', ''J.K. Rowling'']"
  "find_all_div_quote page_one = [einstein_elem, rowling_elem]"
  by (simp_all add: page_defs)

lemma sidebar_page_lists:
  "find_all_small_author sidebar_page = [''Albert Einstein'', ''J.K. Rowling'']"
  "find_all_div_quote sidebar_page = [rowling_elem]"
  by (simp_all add: page_defs2)

lemma nested_page_lists:
  "find_all_small_author nested_page = [''Albert Einstein'', ''J.K. Rowling'']"
  "find_all_div_quote nested_page =
     [[Node DivQuote einstein_elem], einstein_elem, rowling_elem]"
  by (simp_all add: page_defs2)

lemma twice_page_lists:
  "find_all_small_author twice_page = [''Albert Einstein'', ''Albert Einstein'']"
  "find_all_div_quote twice_page = [Node (SmallAuthor ''Albert Einstein'') [] # einstein_elem]"
  by (simp_all add: page_defs2)

lemma elem_links:
  "a_noclass einstein_elem = Some (Anchor (Some ''/author/Albert-Einstein''))"
  "a_noclass rowling_elem = Some (Anchor (Some ''/author/J-K-Rowling''))"
  "a_noclass [Node DivQuote einstein_elem] = Some (Anchor (Some ''/author/Albert-Einstein''))"
  "a_noclass (Node (SmallAuthor ''Albert Einstein'') [] # einstein_elem) =
     Some (Anchor (Some ''/author/Albert-Einstein''))"
  by (simp_all add: page_defs2)

lemma elem_authors:
  "small_author einstein_elem = [''Albert Einstein'']"
  "small_author rowling_elem = [''J.K. Rowling'']"
  "small_author [Node DivQuote einstein_elem] = [''Albert Einstein'']"
  "find_all_quote einstein_elem = []" "find_all_quote rowling_elem = []"
  by (simp_all add: page_defs2)

text \<open>
  The first page of the two-page site satisfies the three hypotheses and adds Einstein
  and Rowling, each with the link of the own quote element. The page with the name in
  the sidebar has a link in its quote element, and its second name, beyond the only
  quote element, is new: the read is out of range.
\<close>

theorem author_links_paired_by_position_witness:
  "authors_inside_quotes page_one \<and> quotes_not_nested page_one \<and> one_author_each page_one
   \<and> list_all (\<lambda>q. a_noclass q \<noteq> None) (find_all_div_quote page_one)
   \<and> new_author_indices [] (find_all_small_author page_one) = [0, 1]
   \<and> authors_of_soup BASE_URL page_one [] =
       Inr [\<lparr>author_name = ''Albert Einstein'',
              author_info_url = BASE_URL @ ''/author/Albert-Einstein''\<rparr>,
            \<lparr>author_name = ''J.K. Rowling'',
              author_info_url = BASE_URL @ ''/author/J-K-Rowling''\<rparr>]
   \<and> list_all2 (\<lambda>n q. small_author q = [n])
        (find_all_small_author page_one) (find_all_div_quote page_one)
   \<and> list_all (\<lambda>q. a_noclass q \<noteq> None) (find_all_div_quote sidebar_page)
   \<and> authors_of_soup BASE_URL sidebar_page [] = Inl IndexError"
proof -
  have h1: "authors_inside_quotes page_one \<and> quotes_not_nested page_one \<and> one_author_each page_one"
    by (simp add: authors_inside_quotes_def quotes_not_nested_def one_author_each_def
        page_one_lists elem_authors)
       (simp add: page_defs)
  have h2: "list_all (\<lambda>q. a_noclass q \<noteq> None) (find_all_div_quote page_one)"
    by (simp add: page_one_lists elem_links)
  have h3: "list_all (\<lambda>q. a_noclass q \<noteq> None) (find_all_div_quote sidebar_page)"
    by (simp add: sidebar_page_lists elem_links)
  have ix: "new_author_indices [] (find_all_small_author page_one) = [0, 1]"
    by (simp add: new_author_indices_def author_found_def page_one_lists upt_rec)
  have e: "authors_of_soup BASE_URL page_one [] =
       Inr [\<lparr>author_name = ''Albert Einstein'',
              author_info_url = BASE_URL @ ''/author/Albert-Einstein''\<rparr>,
            \<lparr>author_name = ''J.K. Rowling'',
              author_info_url = BASE_URL @ ''/author/J-K-Rowling''\<rparr>]"
    using author_links_paired_by_position [of BASE_URL page_one "[]"
        "[\<lparr>author_name = ''Albert Einstein'',
              author_info_url = BASE_URL @ ''/author/Albert-Einstein''\<rparr>,
            \<lparr>author_name = ''J.K. Rowling'',
              author_info_url = BASE_URL @ ''/author/J-K-Rowling''\<rparr>]"]
    by (simp add: ix) (simp add: page_one_lists elem_links elem_url_def attrs_get_href_def)
  have al: "list_all2 (\<lambda>n q. small_author q = [n])
        (find_all_small_author page_one) (find_all_div_quote page_one)"
    using author_links_paired_by_position [of BASE_URL page_one "[]"] h1 by blast
  have "\<not> set (drop (length (find_all_div_quote sidebar_page)) (find_all_small_author sidebar_page))
               \<subseteq> author_name ` set []
                 \<union> set (take (length (find_all_div_quote sidebar_page))
                     (find_all_small_author sidebar_page))"
    by (simp add: sidebar_page_lists)
  then have ie: "authors_of_soup BASE_URL sidebar_page [] = Inl IndexError"
    using author_links_paired_by_position [of BASE_URL sidebar_page "[]"] h3 by blast
  from h1 h2 h3 ix e al ie show ?thesis by simp
qed

text \<open>
  In the page with the sidebar every quote element contains exactly one author-name
  element and none lies inside another; the read is out of range. In the page with the
  nested quote element every author-name element lies inside a quote element and every
  quote element contains exactly one; there are two names and three quote elements, and
  Rowling is given Einstein's link. The page that shows its author's name twice has two
  author-name elements and one quote element, and nothing is raised.
\<close>

theorem author_links_paired_by_position_counterexample:
  "one_author_each sidebar_page \<and> quotes_not_nested sidebar_page
   \<and> authors_of_soup BASE_URL sidebar_page [] = Inl IndexError
   \<and> one_author_each nested_page \<and> authors_inside_quotes nested_page
   \<and> length (find_all_small_author nested_page) = 2
   \<and> length (find_all_div_quote nested_page) = 3
   \<and> authors_of_soup BASE_URL nested_page [] =
       Inr [\<lparr>author_name = ''Albert Einstein'',
              author_info_url = BASE_URL @ ''/author/Albert-Einstein''\<rparr>,
            \<lparr>author_name = ''J.K. Rowling'',
              author_info_url = BASE_URL @ ''/author/Albert-Einstein''\<rparr>]
   \<and> length (find_all_div_quote twice_page) < length (find_all_small_author twice_page)
   \<and> authors_of_soup BASE_URL twice_page [] =
       Inr [\<lparr>author_name = ''Albert Einstein'',
              author_info_url = BASE_URL @ ''/author/Albert-Einstein''\<rparr>]"
proof -
  have 1: "one_author_each sidebar_page \<and> quotes_not_nested sidebar_page
      \<and> one_author_each nested_page"
    by (simp add: one_author_each_def quotes_not_nested_def sidebar_page_lists
        nested_page_lists elem_authors)
  have 2: "authors_inside_quotes nested_page"
    by (simp add: authors_inside_quotes_def nested_page_def listing_def)
  have 3: "authors_of_soup BASE_URL sidebar_page [] = Inl IndexError"
    by (simp add: authors_of_soup_def author_step_def author_found_def attrs_get_href_def
        sidebar_page_lists elem_links)
  have 4: "authors_of_soup BASE_URL nested_page [] =
       Inr [\<lparr>author_name = ''Albert Einstein'',
              author_info_url = BASE_URL @ ''/author/Albert-Einstein''\<rparr>,
            \<lparr>author_name = ''J.K. Rowling'',
              author_info_url = BASE_URL @ ''/author/Albert-Einstein''\<rparr>]"
    by (simp add: authors_of_soup_def author_step_def author_found_def attrs_get_href_def
        nested_page_lists elem_links)
  have 5: "authors_of_soup BASE_URL twice_page [] =
       Inr [\<lparr>author_name = ''Albert Einstein'',
              author_info_url = BASE_URL @ ''/author/Albert-Einstein''\<rparr>]"
    by (simp add: authors_of_soup_def author_step_def author_found_def attrs_get_href_def
        twice_page_lists elem_links)
  from 1 2 3 4 5 show ?thesis
    by (simp add: nested_page_lists twice_page_lists)
qed

section \<open>Uploading authors\<close>

lemma find_app:
  "find P (xs @ ys) = (case find P xs of None \<Rightarrow> find P ys | Some x \<Rightarrow> Some x)"
  by (induction xs) auto

lemma author_first_insert_author:
  "author_first (insert_author a st) n =
     (case author_first st n of
        Some d \<Rightarrow> Some d
      | None \<Rightarrow> if fullname a = n then Some \<lparr>author_id = next_id st, author_fields = a\<rparr> else None)"
  by (simp add: author_first_def insert_author_def find_app split: option.splits)

lemma quote_first_insert_quote:
  "quote_first (insert_quote q aid st) t =
     (case quote_first st t of
        Some d \<Rightarrow> Some d
      | None \<Rightarrow> if quote q = t
                then Some \<lparr>quote_id = next_id st, quote_tags = tags q, quote_author = aid,
                           quote_text = quote q\<rparr>
                else None)"
  by (simp add: quote_first_def insert_quote_def find_app split: option.splits)

text \<open>
  One step of main\_oop\_asincio.py: the record is inserted when its name is absent and
  skipped when it is present; the guarded \<open>save\<close> cannot break a unique field.
\<close>

lemma upload_author_oop_asincio_step:
  "upload_author_oop_asincio m a st =
     Inr (if author_first st (fullname a) = None then insert_author a st else st)"
  by (simp add: upload_author_oop_asincio_def author_save_def)

lemma upload_quote_oop_asincio_step:
  "upload_quote_oop_asincio m q st =
     Inr (case author_first st (author q) of
            None \<Rightarrow> st
          | Some a \<Rightarrow> if quote_first st (quote q) = None then insert_quote q (author_id a) st
                      else st)"
  by (auto simp: upload_quote_oop_asincio_def quote_save_def split: option.splits)

text \<open>Names already stored stay found, by the same document.\<close>

lemma upload_author_oop_asincio_found:
  "upload_author_oop_asincio m a st = Inr st' \<Longrightarrow> author_first st n = Some d \<Longrightarrow>
     author_first st' n = Some d"
  by (auto simp: upload_author_oop_asincio_step author_first_insert_author split: if_splits)

lemma upload_author_data_oop_asincio_found:
  "upload_author_data_oop_asincio m as st = Inr st' \<Longrightarrow> author_first st n = Some d \<Longrightarrow>
     author_first st' n = Some d"
  unfolding upload_author_data_oop_asincio_def
proof (induction as arbitrary: st)
  case Nil
  then show ?case by simp
next
  case (Cons a as)
  from Cons.prems(1) obtain s1 where s1: "upload_author_oop_asincio m a st = Inr s1"
    and rest: "foldE (upload_author_oop_asincio m) as s1 = Inr st'"
    by (auto split: sum.splits)
  from upload_author_oop_asincio_found [OF s1 Cons.prems(2)] Cons.IH [OF rest]
  show ?case by simp
qed

text \<open>The upload of main\_oop\_asincio.py never raises.\<close>

lemma upload_author_data_oop_asincio_total:
  "\<exists>st'. upload_author_data_oop_asincio m as st = Inr st'"
  unfolding upload_author_data_oop_asincio_def
  by (induction as arbitrary: st) (simp_all add: upload_author_oop_asincio_step)

lemma upload_quotes_data_oop_asincio_total:
  "\<exists>st'. upload_quotes_data_oop_asincio m qs st = Inr st'"
  unfolding upload_quotes_data_oop_asincio_def
  by (induction qs arbitrary: st) (simp_all add: upload_quote_oop_asincio_step)

text \<open>After the upload every name of the input is stored.\<close>

lemma upload_author_data_oop_asincio_stored:
  "upload_author_data_oop_asincio m as st = Inr st' \<Longrightarrow> a \<in> set as \<Longrightarrow>
     author_first st' (fullname a) \<noteq> None"
proof (induction as arbitrary: st)
  case Nil
  then show ?case by simp
next
  case (Cons b as)
  from Cons.prems(1) obtain s1 where s1: "upload_author_oop_asincio m b st = Inr s1"
    and rest: "upload_author_data_oop_asincio m as s1 = Inr st'"
    by (auto simp: upload_author_data_oop_asincio_def split: sum.splits)
  show ?case
  proof (cases "a = b")
    case True
    from s1 have "author_first s1 (fullname b) \<noteq> None"
      by (auto simp: upload_author_oop_asincio_step author_first_insert_author
          split: if_splits)
    then obtain d where "author_first s1 (fullname b) = Some d" by auto
    from upload_author_data_oop_asincio_found [OF rest this] True show ?thesis by simp
  next
    case False
    with Cons.prems(2) have "a \<in> set as" by simp
    from Cons.IH [OF rest this] show ?thesis .
  qed
qed

text \<open>When every name of the input is stored, the upload leaves the store as it is.\<close>

lemma upload_author_data_oop_asincio_skips:
  "list_all (\<lambda>a. author_first st (fullname a) \<noteq> None) as \<Longrightarrow>
     upload_author_data_oop_asincio m as st = Inr st"
  unfolding upload_author_data_oop_asincio_def
  by (induction as) (auto simp: upload_author_oop_asincio_step)

text \<open>
  Nothing is overwritten, and only absent names are inserted: the collection grows at
  its end by documents whose names were not stored and differ from one another.
\<close>

lemma upload_author_data_oop_asincio_appends:
  "upload_author_data_oop_asincio m as st = Inr st' \<Longrightarrow>
     \<exists>new. author_coll st' = author_coll st @ new
       \<and> quote_coll st' = quote_coll st
       \<and> distinct (map (\<lambda>d. fullname (author_fields d)) new)
       \<and> list_all (\<lambda>d. author_first st (fullname (author_fields d)) = None
                      \<and> author_fields d \<in> set as) new"
proof (induction as arbitrary: st)
  case Nil
  then show ?case by (simp add: upload_author_data_oop_asincio_def)
next
  case (Cons a as)
  from Cons.prems obtain s1 where s1: "upload_author_oop_asincio m a st = Inr s1"
    and rest: "upload_author_data_oop_asincio m as s1 = Inr st'"
    by (auto simp: upload_author_data_oop_asincio_def split: sum.splits)
  from Cons.IH [OF rest] obtain new where new: "author_coll st' = author_coll s1 @ new"
    "quote_coll st' = quote_coll s1"
    "distinct (map (\<lambda>d. fullname (author_fields d)) new)"
    "list_all (\<lambda>d. author_first s1 (fullname (author_fields d)) = None
                  \<and> author_fields d \<in> set as) new"
    by blast
  show ?case
  proof (cases "author_first st (fullname a) = None")
    case False
    with s1 have "s1 = st" by (simp add: upload_author_oop_asincio_step)
    with new show ?thesis by (auto simp: list_all_iff)
  next
    case True
    with s1 have s1': "s1 = insert_author a st" by (simp add: upload_author_oop_asincio_step)
    let ?d = "\<lparr>author_id = next_id st, author_fields = a\<rparr>"
    have absent: "author_first st (fullname (author_fields d)) = None
        \<and> fullname (author_fields d) \<noteq> fullname a" if "d \<in> set new" for d
      using that new(4) unfolding s1'
      by (auto simp: list_all_iff author_first_insert_author split: option.splits if_splits)
    have "author_coll st' = author_coll st @ (?d # new)"
      using new(1) by (simp add: s1' insert_author_def)
    moreover have "quote_coll st' = quote_coll st"
      using new(2) by (simp add: s1' insert_author_def)
    moreover have "fullname a \<notin> (\<lambda>d. fullname (author_fields d)) ` set new"
      using absent by force
    then have "distinct (map (\<lambda>d. fullname (author_fields d)) (?d # new))"
      using new(3) by simp
    moreover have "list_all (\<lambda>d. author_first st (fullname (author_fields d)) = None
                      \<and> author_fields d \<in> set (a # as)) (?d # new)"
      using True new(4) absent by (auto simp: list_all_iff)
    ultimately show ?thesis by blast
  qed
qed

lemmas upload_defs = upload_author_data_def upload_author_data_motor_def
  upload_author_data_oop_asincio_def upload_author_oop_asincio_def author_save_def
  insert_author_def author_first_def upload_quotes_data_def upload_quote_def
  upload_quotes_data_motor_def upload_quote_motor_def upload_quotes_data_oop_asincio_def
  upload_quote_oop_asincio_def quote_save_def insert_quote_def quote_first_def

text \<open>
  Claim C1 at the store that already holds Einstein, with Einstein as the only record to
  upload. main.py, main\_asincio.py and main\_oop.py save without looking: a second
  Einstein is stored, or \<open>save\<close> raises when \<open>fullname\<close> is a unique field. The motor
  variant stores a second Einstein. Only main\_oop\_asincio.py skips the record.
\<close>

theorem upload_author_data_not_guarded:
  "upload_author_data plain_models [einstein] einstein_store =
     Inr (einstein_store\<lparr>author_coll := author_coll einstein_store @
            [\<lparr>author_id = 2, author_fields = einstein\<rparr>], next_id := 3\<rparr>)
   \<and> upload_author_data unique_models [einstein] einstein_store = Inl NotUniqueError
   \<and> upload_author_data_motor [einstein] einstein_store =
       Inr (einstein_store\<lparr>author_coll := author_coll einstein_store @
              [\<lparr>author_id = 2, author_fields = einstein\<rparr>], next_id := 3\<rparr>)
   \<and> upload_author_data_oop_asincio plain_models [einstein] einstein_store = Inr einstein_store
   \<and> upload_author_data_oop_asincio unique_models [einstein] einstein_store = Inr einstein_store"
  by (simp add: upload_defs example_defs)

section \<open>Uploading quotes, guarded\<close>

lemma upload_quote_oop_asincio_found:
  "upload_quote_oop_asincio m q st = Inr st' \<Longrightarrow> quote_first st t = Some d \<Longrightarrow>
     quote_first st' t = Some d"
  by (auto simp: upload_quote_oop_asincio_step quote_first_insert_quote
      split: option.splits if_splits)

lemma upload_quotes_data_oop_asincio_author_coll:
  "upload_quotes_data_oop_asincio m qs st = Inr st' \<Longrightarrow> author_coll st' = author_coll st"
  unfolding upload_quotes_data_oop_asincio_def
  using foldE_preserves [of "upload_quote_oop_asincio m" author_coll qs st st']
    upload_quote_oop_asincio_author_coll
  by blast

lemma upload_quotes_data_oop_asincio_found:
  "upload_quotes_data_oop_asincio m qs st = Inr st' \<Longrightarrow> quote_first st t = Some d \<Longrightarrow>
     quote_first st' t = Some d"
  unfolding upload_quotes_data_oop_asincio_def
proof (induction qs arbitrary: st)
  case Nil
  then show ?case by simp
next
  case (Cons q qs)
  from Cons.prems(1) obtain s1 where s1: "upload_quote_oop_asincio m q st = Inr s1"
    and rest: "foldE (upload_quote_oop_asincio m) qs s1 = Inr st'"
    by (auto split: sum.splits)
  from upload_quote_oop_asincio_found [OF s1 Cons.prems(2)] Cons.IH [OF rest]
  show ?case by simp
qed

text \<open>After the upload the text of every quote of the input with a stored author is stored.\<close>

lemma upload_quotes_data_oop_asincio_stored:
  "upload_quotes_data_oop_asincio m qs st = Inr st' \<Longrightarrow> q \<in> set qs \<Longrightarrow>
     author_first st (author q) \<noteq> None \<Longrightarrow> quote_first st' (quote q) \<noteq> None"
proof (induction qs arbitrary: st)
  case Nil
  then show ?case by simp
next
  case (Cons p qs)
  from Cons.prems(1) obtain s1 where s1: "upload_quote_oop_asincio m p st = Inr s1"
    and rest: "upload_quotes_data_oop_asincio m qs s1 = Inr st'"
    by (auto simp: upload_quotes_data_oop_asincio_def split: sum.splits)
  from s1 have coll: "author_coll s1 = author_coll st"
    by (rule upload_quote_oop_asincio_author_coll)
  show ?case
  proof (cases "q = p")
    case True
    from s1 Cons.prems(3) have "quote_first s1 (quote p) \<noteq> None" unfolding True
      by (auto simp: upload_quote_oop_asincio_step quote_first_insert_quote
          split: option.splits if_splits)
    then obtain d where "quote_first s1 (quote p) = Some d" by auto
    from upload_quotes_data_oop_asincio_found [OF rest this] True show ?thesis by simp
  next
    case False
    with Cons.prems(2) have "q \<in> set qs" by simp
    moreover from Cons.prems(3) coll have "author_first s1 (author q) \<noteq> None"
      by (simp add: author_first_def)
    ultimately show ?thesis using Cons.IH [OF rest] by blast
  qed
qed

text \<open>Quotes without a stored author and quotes whose text is stored leave the store as it is.\<close>

lemma upload_quotes_data_oop_asincio_skips:
  "list_all (\<lambda>q. author_first st (author q) = None \<or> quote_first st (quote q) \<noteq> None) qs \<Longrightarrow>
     upload_quotes_data_oop_asincio m qs st = Inr st"
  unfolding upload_quotes_data_oop_asincio_def
  by (induction qs) (auto simp: upload_quote_oop_asincio_step split: option.splits)

text \<open>
  The upload of main\_oop\_asincio.py, run again on what it stored, changes nothing: this
  is what the variants without the two checks miss.
\<close>

lemma upload_oop_asincio_again:
  assumes "upload_author_data_oop_asincio m as st = Inr sa"
    and "upload_quotes_data_oop_asincio m qs sa = Inr st1"
  shows "upload_author_data_oop_asincio m as st1 = Inr st1"
    and "upload_quotes_data_oop_asincio m qs st1 = Inr st1"
proof -
  have coll: "author_coll st1 = author_coll sa"
    using assms(2) by (rule upload_quotes_data_oop_asincio_author_coll)
  then have first: "author_first st1 n = author_first sa n" for n
    by (simp add: author_first_def)
  have "list_all (\<lambda>a. author_first st1 (fullname a) \<noteq> None) as"
    using upload_author_data_oop_asincio_stored [OF assms(1)]
    by (simp add: list_all_iff first)
  then show "upload_author_data_oop_asincio m as st1 = Inr st1"
    by (rule upload_author_data_oop_asincio_skips)
  have "author_first st1 (author q) = None \<or> quote_first st1 (quote q) \<noteq> None"
    if "q \<in> set qs" for q
  proof (cases "author_first sa (author q) = None")
    case True
    then show ?thesis by (simp add: first)
  next
    case False
    from upload_quotes_data_oop_asincio_stored [OF assms(2) that False] show ?thesis by simp
  qed
  then have
    "list_all (\<lambda>q. author_first st1 (author q) = None \<or> quote_first st1 (quote q) \<noteq> None) qs"
    unfolding list_all_iff by blast
  then show "upload_quotes_data_oop_asincio m qs st1 = Inr st1"
    by (rule upload_quotes_data_oop_asincio_skips)
qed

lemma main_oop_asincio_again:
  assumes "main_oop_asincio web base_url m st = Some (Inr st1)"
  shows "main_oop_asincio web base_url m st1 = Some (Inr st1)"
proof -
  from assms obtain as qs sa where scr: "scrape web base_url = Some (Inr (as, qs))"
    and a: "upload_author_data_oop_asincio m as st = Inr sa"
    and q: "upload_quotes_data_oop_asincio m qs sa = Inr st1"
    by (auto simp: main_oop_asincio_def upload_def split: option.splits sum.splits)
  from upload_oop_asincio_again [OF a q] scr show ?thesis
    by (simp add: main_oop_asincio_def upload_def)
qed

text \<open>
  Claim C2 at the store that already holds Einstein's quote, with that quote as the only
  record to upload. Every variant finds the author by a lookup in the store. main.py,
  main\_asincio.py, main\_oop.py and the motor variant then store the quote a second
  time (or \<open>save\<close> raises when \<open>quote\<close> is a unique field); only main\_oop\_asincio.py
  skips it.
\<close>

theorem upload_quotes_data_not_guarded:
  "author_first einstein_store (author quote_einstein) =
     Some \<lparr>author_id = 0, author_fields = einstein\<rparr>
   \<and> upload_quotes_data plain_models [quote_einstein] einstein_store =
       Inr (einstein_store\<lparr>quote_coll := quote_coll einstein_store @
          [\<lparr>quote_id = 2, quote_tags = [''change'', ''deep-thoughts'', ''thinking''],
            quote_author = 0, quote_text = ''The world as we have created it''\<rparr>],
          next_id := 3\<rparr>)
   \<and> upload_quotes_data unique_models [quote_einstein] einstein_store = Inl NotUniqueError
   \<and> upload_quotes_data_motor [quote_einstein] einstein_store =
       Inr (einstein_store\<lparr>quote_coll := quote_coll einstein_store @
          [\<lparr>quote_id = 2, quote_tags = [''change'', ''deep-thoughts'', ''thinking''],
            quote_author = 0, quote_text = ''The world as we have created it''\<rparr>],
          next_id := 3\<rparr>)
   \<and> upload_quotes_data_oop_asincio plain_models [quote_einstein] einstein_store =
       Inr einstein_store
   \<and> upload_quotes_data_oop_asincio unique_models [quote_einstein] einstein_store =
       Inr einstein_store"
  by (simp add: upload_defs example_defs)

section \<open>Running twice\<close>

lemma get_pages_one_page: "get_pages one_page_web BASE_URL = Some (Inr [BASE_URL])"
proof -
  have "BASE_URL \<noteq> []" by (simp add: BASE_URL_def)
  moreover have "next_chain one_page_web BASE_URL BASE_URL []"
    by (simp add: one_page_web_def listing_def)
  ultimately show ?thesis
    using get_pages_loop_chain [of BASE_URL BASE_URL one_page_web "[]" "[BASE_URL]"]
    by (simp add: get_pages_def)
qed

lemma get_authors_info_one_page:
  "get_authors_info one_page_web BASE_URL [BASE_URL] =
     Inr [\<lparr>author_name = ''Albert Einstein'',
            author_info_url = BASE_URL @ ''/author/Albert-Einstein''\<rparr>]"
  by (simp add: get_authors_info_def authors_of_page_def get_soup_def authors_of_soup_def
      author_step_def author_found_def attrs_get_href_def query_defs
      one_page_web_def listing_def einstein_elem_def tag_links_def)

lemma parse_authors_one_page:
  "parse_authors one_page_web
     [\<lparr>author_name = ''Albert Einstein'',
       author_info_url = BASE_URL @ ''/author/Albert-Einstein''\<rparr>] = Inr [einstein]"
  by (simp add: parse_authors_def get_soup_def append_author_def parse_author_def
      find_text_strip_def strip_def isspace_def example_defs)

lemma parse_quotes_one_page: "parse_quotes one_page_web [BASE_URL] = Inr [quote_einstein]"
  by (simp add: parse_quotes_def get_soup_def quotes_of_soup_def append_quote_def
      parse_quote_def find_text_def find_small_author_def query_defs
      strip_def isspace_def example_defs)

lemma scrape_one_page: "scrape one_page_web BASE_URL = Some (Inr ([einstein], [quote_einstein]))"
  by (simp add: scrape_def get_pages_one_page get_authors_info_one_page
      parse_authors_one_page parse_quotes_one_page)

lemma scrape_motor_one_page:
  "scrape_motor one_page_web BASE_URL = Some (Inr ([einstein], [quote_einstein]))"
proof -
  have "parse_authors_motor one_page_web
     [\<lparr>author_name = ''Albert Einstein'',
       author_info_url = BASE_URL @ ''/author/Albert-Einstein''\<rparr>] = Inr [einstein]"
    by (simp add: parse_authors_motor_def gather_soups_def get_soup_def append_author_def
        parse_author_def find_text_strip_def strip_def isspace_def example_defs)
  moreover have "parse_quotes_motor one_page_web [BASE_URL] = Inr [quote_einstein]"
    by (simp add: parse_quotes_motor_def gather_soups_def get_soup_def quotes_of_soup_def
        append_quote_def parse_quote_def find_text_def find_small_author_def
        query_defs strip_def isspace_def example_defs)
  ultimately show ?thesis
    by (simp add: scrape_motor_def get_pages_one_page get_authors_info_one_page)
qed

text \<open>
  Claim C3 on the site of one page, from the empty store. The first run of main.py
  stores Einstein and his quote. The second run, on the same pages and on the store the
  first run left, stores both a second time when no field is unique; when \<open>fullname\<close> is
  a unique field it stops with an exception at the first author, where the record was
  to be skipped. The motor variant stores both a second time. main\_oop\_asincio.py
  skips both and leaves the store as it is.
\<close>

theorem second_run_duplicates:
  "main_py one_page_web BASE_URL plain_models empty_store = Some (Inr einstein_store)
   \<and> main_py one_page_web BASE_URL plain_models einstein_store = Some (Inr doubled_store)
   \<and> main_py one_page_web BASE_URL unique_models empty_store = Some (Inr einstein_store)
   \<and> main_py one_page_web BASE_URL unique_models einstein_store = Some (Inl NotUniqueError)
   \<and> main_asincio_motor one_page_web BASE_URL empty_store = Some (Inr einstein_store)
   \<and> main_asincio_motor one_page_web BASE_URL einstein_store = Some (Inr doubled_store)
   \<and> main_oop_asincio one_page_web BASE_URL plain_models empty_store = Some (Inr einstein_store)
   \<and> main_oop_asincio one_page_web BASE_URL plain_models einstein_store =
       Some (Inr einstein_store)"
  unfolding main_py_def main_asincio_motor_def main_oop_asincio_def upload_def
    scrape_one_page scrape_motor_one_page
  by (simp add: upload_defs einstein_def quote_einstein_def empty_store_def einstein_store_def
      plain_models_def unique_models_def doubled_store_def)

section \<open>Where the variants agree and where they differ\<close>

text \<open>Without unique fields, \<open>save\<close> in a loop is \<open>insert_many\<close> of a non-empty list.\<close>

lemma upload_author_data_plain:
  "\<not> author_fullname_unique m \<Longrightarrow> upload_author_data m as st = Inr (fold insert_author as st)"
  unfolding upload_author_data_def
  by (induction as arbitrary: st) (simp_all add: author_save_def)

lemma upload_author_data_motor_agrees:
  "\<not> author_fullname_unique m \<Longrightarrow> as \<noteq> [] \<Longrightarrow>
     upload_author_data_motor as st = upload_author_data m as st"
  by (simp add: upload_author_data_plain upload_author_data_motor_def)

lemma upload_quotes_data_motor_agrees:
  "\<not> quote_quote_unique m \<Longrightarrow> upload_quotes_data_motor qs st = upload_quotes_data m qs st"
proof -
  assume "\<not> quote_quote_unique m"
  then have "upload_quote_motor = upload_quote m"
    by (simp add: fun_eq_iff upload_quote_motor_def upload_quote_def quote_save_def
        split: option.splits)
  then show ?thesis
    by (simp add: upload_quotes_data_motor_def upload_quotes_data_def)
qed

text \<open>
  On records whose names are new to the store and differ from one another the check of
  main\_oop\_asincio.py never fires, and the upload is that of main.py; likewise for
  quotes and their texts.
\<close>

lemma upload_author_data_fresh_agrees:
  "distinct (map fullname as) \<Longrightarrow> list_all (\<lambda>a. author_first st (fullname a) = None) as \<Longrightarrow>
     upload_author_data_oop_asincio m as st = upload_author_data m as st"
proof (induction as arbitrary: st)
  case Nil
  then show ?case by (simp add: upload_author_data_oop_asincio_def upload_author_data_def)
next
  case (Cons a as)
  from Cons.prems have fresh: "author_first st (fullname a) = None" by simp
  have "list_all (\<lambda>b. author_first (insert_author a st) (fullname b) = None) as"
    using Cons.prems by (auto simp: list_all_iff author_first_insert_author)
  with Cons.prems(1) have "upload_author_data_oop_asincio m as (insert_author a st) =
      upload_author_data m as (insert_author a st)"
    by (intro Cons.IH) simp_all
  with fresh show ?case
    by (simp add: upload_author_data_oop_asincio_def upload_author_data_def
        upload_author_oop_asincio_def author_save_def)
qed

lemma upload_quotes_data_fresh_agrees:
  "distinct (map quote qs) \<Longrightarrow> list_all (\<lambda>q. quote_first st (quote q) = None) qs \<Longrightarrow>
     upload_quotes_data_oop_asincio m qs st = upload_quotes_data m qs st"
proof (induction qs arbitrary: st)
  case Nil
  then show ?case by (simp add: upload_quotes_data_oop_asincio_def upload_quotes_data_def)
next
  case (Cons q qs)
  from Cons.prems have fresh: "quote_first st (quote q) = None" by simp
  then have step: "upload_quote_oop_asincio m q st = upload_quote m q st"
    by (simp add: upload_quote_oop_asincio_def upload_quote_def split: option.splits)
  show ?case
  proof (cases "upload_quote m q st")
    case (Inl e)
    with step show ?thesis
      by (simp add: upload_quotes_data_oop_asincio_def upload_quotes_data_def)
  next
    case (Inr s1)
    then have "s1 = st \<or> (\<exists>aid. s1 = insert_quote q aid st)"
      by (auto simp: upload_quote_def quote_save_def split: option.splits if_splits)
    then have "list_all (\<lambda>p. quote_first s1 (quote p) = None) qs"
      using Cons.prems by (auto simp: list_all_iff quote_first_insert_quote)
    with Cons.prems(1) have "upload_quotes_data_oop_asincio m qs s1 = upload_quotes_data m qs s1"
      by (intro Cons.IH) simp_all
    with Inr step show ?thesis
      by (simp add: upload_quotes_data_oop_asincio_def upload_quotes_data_def)
  qed
qed

lemma get_pages_three_pages:
  "get_pages three_page_web BASE_URL =
     Some (Inr [BASE_URL, BASE_URL @ ''/page/2/'', BASE_URL @ ''/page/3/''])"
proof -
  have "BASE_URL \<noteq> []" by (simp add: BASE_URL_def)
  then show ?thesis
    using get_pages_loop_chain [OF _ _ three_page_chain, of "[BASE_URL]"]
    by (simp add: get_pages_def)
qed

lemma scrape_three_pages:
  "scrape three_page_web BASE_URL = Some (Inr ([], []))"
  "scrape_motor three_page_web BASE_URL = Some (Inr ([], []))"
proof -
  have pages:
    "three_page_web BASE_URL = Some (listing [] (Some (Li (Some (Anchor (Some ''/page/2/''))))))"
    "three_page_web (BASE_URL @ ''/page/2/'') =
       Some (listing [] (Some (Li (Some (Anchor (Some ''/page/3/''))))))"
    "three_page_web (BASE_URL @ ''/page/3/'') = Some (listing [] None)"
    by (simp_all add: three_page_web_def BASE_URL_def)
  have a: "get_authors_info three_page_web BASE_URL
      [BASE_URL, BASE_URL @ ''/page/2/'', BASE_URL @ ''/page/3/''] = Inr []"
    by (simp add: get_authors_info_def authors_of_page_def get_soup_def authors_of_soup_def
        query_defs pages listing_def)
  have q: "parse_quotes three_page_web
      [BASE_URL, BASE_URL @ ''/page/2/'', BASE_URL @ ''/page/3/''] = Inr []"
    by (simp add: parse_quotes_def get_soup_def quotes_of_soup_def query_defs
        pages listing_def)
  have qm: "parse_quotes_motor three_page_web
      [BASE_URL, BASE_URL @ ''/page/2/'', BASE_URL @ ''/page/3/''] = Inr []"
    by (simp add: parse_quotes_motor_def gather_soups_def get_soup_def quotes_of_soup_def
        query_defs pages listing_def)
  show "scrape three_page_web BASE_URL = Some (Inr ([], []))"
    by (simp add: scrape_def get_pages_three_pages a q parse_authors_def)
  show "scrape_motor three_page_web BASE_URL = Some (Inr ([], []))"
    by (simp add: scrape_motor_def get_pages_three_pages a qm parse_authors_motor_def
        gather_soups_def)
qed

text \<open>A scrape that succeeds gives the same lists with and without \<open>gather\<close>.\<close>

lemma list_all2_concat:
  "(\<exists>yss. list_all2 (\<lambda>x ys. list_all2 P (f x) ys) xs yss \<and> r = concat yss)
   \<longleftrightarrow> list_all2 P (concat (map f xs)) r"
proof (induction xs arbitrary: r)
  case Nil
  then show ?case by auto
next
  case (Cons x xs)
  show ?case
  proof
    assume "\<exists>yss. list_all2 (\<lambda>x ys. list_all2 P (f x) ys) (x # xs) yss \<and> r = concat yss"
    then obtain ys yss where ys: "list_all2 P (f x) ys"
      and yss: "list_all2 (\<lambda>x ys. list_all2 P (f x) ys) xs yss" and r: "r = ys @ concat yss"
      by (auto simp: list_all2_Cons1)
    from yss Cons.IH [of "concat yss"] have "list_all2 P (concat (map f xs)) (concat yss)"
      by blast
    with ys r show "list_all2 P (concat (map f (x # xs))) r"
      by (simp add: list_all2_appendI)
  next
    assume "list_all2 P (concat (map f (x # xs))) r"
    then obtain ys zs where r: "r = ys @ zs" and ys: "list_all2 P (f x) ys"
      and zs: "list_all2 P (concat (map f xs)) zs"
      by (auto simp: list_all2_append1)
    from zs Cons.IH [of zs] obtain yss where
      "list_all2 (\<lambda>x ys. list_all2 P (f x) ys) xs yss" "zs = concat yss"
      by blast
    with ys r have "list_all2 (\<lambda>x ys. list_all2 P (f x) ys) (x # xs) (ys # yss)
        \<and> r = concat (ys # yss)"
      by simp
    then show "\<exists>yss. list_all2 (\<lambda>x ys. list_all2 P (f x) ys) (x # xs) yss \<and> r = concat yss"
      by blast
  qed
qed

lemma parse_quotes_motor_Inr:
  "parse_quotes_motor web links = Inr r \<longleftrightarrow> parse_quotes web links = Inr r"
proof -
  let ?P = "\<lambda>el q. parse_quote el = Inr q"
  have f: "foldE quotes_of_soup soups [] = Inr r \<longleftrightarrow>
      list_all2 ?P (concat (map find_all_div_quote soups)) r" for soups
  proof -
    have "foldE quotes_of_soup soups [] = Inr r \<longleftrightarrow>
        (\<exists>yss. list_all2 (\<lambda>s ys. quotes_of_soup s [] = Inr ys) soups yss \<and> r = [] @ concat yss)"
      by (rule foldE_collect_many) (rule quotes_of_soup_acc)
    also have "\<dots> \<longleftrightarrow> list_all2 ?P (concat (map find_all_div_quote soups)) r"
      by (simp add: quotes_of_soup_Inr list_all2_concat)
    finally show ?thesis .
  qed
  show ?thesis
  proof (cases "gather_soups web links")
    case (Inl e)
    then have "\<not> web_soups web links soups" for soups
      using gather_soups_Inr [of web links soups] by (simp add: web_soups_def)
    with Inl show ?thesis by (simp add: parse_quotes_motor_def parse_quotes_Inr)
  next
    case (Inr soups)
    then have "web_soups web links soups' \<longleftrightarrow> soups' = soups" for soups'
      using gather_soups_Inr [of web links soups'] by (auto simp: web_soups_def)
    with Inr show ?thesis by (simp add: parse_quotes_motor_def parse_quotes_Inr f)
  qed
qed

lemma scrape_motor_agrees:
  assumes "scrape web base_url = Some (Inr x)"
  shows "scrape_motor web base_url = Some (Inr x)"
proof -
  from assms obtain pages author_links as qs where
    p: "get_pages web base_url = Some (Inr pages)"
    and l: "get_authors_info web base_url pages = Inr author_links"
    and a: "parse_authors web author_links = Inr as"
    and q: "parse_quotes web pages = Inr qs" and x: "x = (as, qs)"
    by (auto simp: scrape_def split: option.splits sum.splits)
  from a have "parse_authors_motor web author_links = Inr as"
    by (simp add: parse_authors_collect parse_authors_motor_collect)
  moreover from q have "parse_quotes_motor web pages = Inr qs"
    by (simp add: parse_quotes_motor_Inr)
  ultimately show ?thesis using p l x by (simp add: scrape_motor_def)
qed

lemma author_save_quote_coll:
  "author_save m a st = Inr st' \<Longrightarrow> quote_coll st' = quote_coll st"
  by (auto simp: author_save_def insert_author_def split: if_splits)

lemma upload_author_data_quote_coll:
  "upload_author_data m as st = Inr st' \<Longrightarrow> quote_coll st' = quote_coll st"
  unfolding upload_author_data_def
  using foldE_preserves [of "author_save m" quote_coll as st st'] author_save_quote_coll
  by blast

text \<open>
  The runs agree where no check would fire: when the scraped names and texts are new to
  the store and differ from one another, main\_oop\_asincio.py ends as main.py does; when
  moreover no field is unique and an author was scraped, so does the motor variant.
\<close>

lemma main_oop_asincio_agrees_when_fresh:
  assumes "scrape web base_url = Some (Inr (as, qs))"
    and "distinct (map fullname as)" and "list_all (\<lambda>a. author_first st (fullname a) = None) as"
    and "distinct (map quote qs)" and "list_all (\<lambda>q. quote_first st (quote q) = None) qs"
  shows "main_oop_asincio web base_url m st = main_py web base_url m st"
proof -
  have a: "upload_author_data_oop_asincio m as st = upload_author_data m as st"
    using assms(2,3) by (rule upload_author_data_fresh_agrees)
  have "upload_quotes_data_oop_asincio m qs sa = upload_quotes_data m qs sa"
    if "upload_author_data m as st = Inr sa" for sa
  proof -
    from that have "quote_coll sa = quote_coll st" by (rule upload_author_data_quote_coll)
    then have "quote_first sa t = quote_first st t" for t by (simp add: quote_first_def)
    with assms(5) have "list_all (\<lambda>q. quote_first sa (quote q) = None) qs" by simp
    with assms(4) show ?thesis by (rule upload_quotes_data_fresh_agrees)
  qed
  with a assms(1) show ?thesis
    by (simp add: main_oop_asincio_def main_py_def upload_def split: sum.splits)
qed

lemma main_asincio_motor_agrees_when_plain:
  assumes "scrape web base_url = Some (Inr (as, qs))" and "as \<noteq> []"
    and "\<not> author_fullname_unique m" and "\<not> quote_quote_unique m"
  shows "main_asincio_motor web base_url st = main_py web base_url m st"
proof -
  have "upload_author_data_motor as st = upload_author_data m as st"
    using assms(3,2) by (rule upload_author_data_motor_agrees)
  moreover have "upload_quotes_data_motor qs s = upload_quotes_data m qs s" for s
    using assms(4) by (rule upload_quotes_data_motor_agrees)
  ultimately show ?thesis
    using assms(1) scrape_motor_agrees [OF assms(1)]
    by (simp add: main_asincio_motor_def main_py_def upload_def split: sum.splits)
qed

text \<open>
  Claim C4 on the site of one page and the store a first run left. main.py,
  main\_asincio.py and main\_oop.py, which hold the same functions, store Einstein and
  his quote a second time, as the motor variant does; main\_oop\_asincio.py leaves the
  store as it is. The persisted authors and quotes differ. On the site of three pages
  without quotes the motor variant raises on the empty list of authors, where the
  others end with the store as it was.
\<close>

theorem variants_differ_on_stored_records:
  "main_py one_page_web BASE_URL plain_models einstein_store = Some (Inr doubled_store)
   \<and> main_asincio_motor one_page_web BASE_URL einstein_store = Some (Inr doubled_store)
   \<and> main_oop_asincio one_page_web BASE_URL plain_models einstein_store =
       Some (Inr einstein_store)
   \<and> map (\<lambda>d. fullname (author_fields d)) (author_coll doubled_store) =
       [''Albert Einstein'', ''Albert Einstein'']
   \<and> map (\<lambda>d. fullname (author_fields d)) (author_coll einstein_store) = [''Albert Einstein'']
   \<and> length (quote_coll doubled_store) = 2 \<and> length (quote_coll einstein_store) = 1
   \<and> main_py three_page_web BASE_URL plain_models empty_store = Some (Inr empty_store)
   \<and> main_oop_asincio three_page_web BASE_URL plain_models empty_store = Some (Inr empty_store)
   \<and> main_asincio_motor three_page_web BASE_URL empty_store = Some (Inl TypeError)"
  unfolding main_py_def main_asincio_motor_def main_oop_asincio_def upload_def
    scrape_one_page scrape_motor_one_page scrape_three_pages
  by (simp add: upload_defs einstein_def quote_einstein_def empty_store_def einstein_store_def
      plain_models_def unique_models_def doubled_store_def)

end
